theory Spec2Isabelle
  imports Complex_Main "HOL-Library.Log_Nat" "HOL-Library.Code_Target_Nat"
begin

section \<open>Strings\<close>

text \<open>
  A JavaScript string is a sequence of UTF-16 code units; the model keeps the numeric
  value of each unit. The rupee sign of \<open>formatPrice\<close> is the single unit U+20B9.
\<close>

type_synonym jsstring = "nat list"

definition js :: "string \<Rightarrow> jsstring" where
  "js s = map of_char s"

definition rupee :: nat where
  "rupee = 8377"

text \<open>\<open>String.prototype.trim\<close> strips WhiteSpace and LineTerminator code units.\<close>

definition isWhiteSpace :: "nat \<Rightarrow> bool" where
  "isWhiteSpace c \<longleftrightarrow>
     c \<in> {9, 10, 11, 12, 13, 32, 160, 5760, 8232, 8233, 8239, 8287, 12288, 65279}
     \<or> (8192 \<le> c \<and> c \<le> 8202)"

definition trimStart :: "jsstring \<Rightarrow> jsstring" where
  "trimStart s = dropWhile isWhiteSpace s"

definition trim :: "jsstring \<Rightarrow> jsstring" where
  "trim s = rev (dropWhile isWhiteSpace (rev (dropWhile isWhiteSpace s)))"

text \<open>
  \<open>String.prototype.toLowerCase\<close> is the Unicode case mapping, which the sources do not
  contain. The functions that call it take it as a parameter, named \<open>toLowerCase\<close>, and
  every result below holds for every such mapping. \<open>toLowerCase_ascii\<close> is the mapping on
  strings whose code units are all below 128: there it changes the letters A to Z and
  nothing else. Only the examples use it, on such strings.
\<close>

definition toLowerCase_ascii :: "jsstring \<Rightarrow> jsstring" where
  "toLowerCase_ascii s = map (\<lambda>c. if 65 \<le> c \<and> c \<le> 90 then c + 32 else c) s"


text \<open>\<open>Array.prototype.join\<close>.\<close>

fun join :: "jsstring \<Rightarrow> jsstring list \<Rightarrow> jsstring" where
  "join sep [] = []"
| "join sep [x] = x"
| "join sep (x # y # ys) = x @ sep @ join sep (y # ys)"

text \<open>\<open>s.replace(c, '')\<close> for a one-unit pattern: the first occurrence is removed.\<close>

fun replace_first :: "nat \<Rightarrow> jsstring \<Rightarrow> jsstring" where
  "replace_first c [] = []"
| "replace_first c (x # xs) = (if x = c then xs else x # replace_first c xs)"

section \<open>Arrays\<close>

text \<open>\<open>findIndex\<close>; \<open>None\<close> is the source's \<open>-1\<close>.\<close>

fun findIndex :: "('a \<Rightarrow> bool) \<Rightarrow> 'a list \<Rightarrow> nat option" where
  "findIndex P [] = None"
| "findIndex P (x # xs) = (if P x then Some 0 else map_option Suc (findIndex P xs))"

text \<open>\<open>xs.map((x, index) => ...)\<close> and \<open>xs.filter((x, index) => ...)\<close>, from index \<open>i\<close>.\<close>

fun mapIndex :: "('a \<Rightarrow> nat \<Rightarrow> 'b) \<Rightarrow> nat \<Rightarrow> 'a list \<Rightarrow> 'b list" where
  "mapIndex f i [] = []"
| "mapIndex f i (x # xs) = f x i # mapIndex f (Suc i) xs"

fun filterIndex :: "('a \<Rightarrow> nat \<Rightarrow> bool) \<Rightarrow> nat \<Rightarrow> 'a list \<Rightarrow> 'a list" where
  "filterIndex p i [] = []"
| "filterIndex p i (x # xs) = (if p x i then x # filterIndex p (Suc i) xs else filterIndex p (Suc i) xs)"

text \<open>\<open>xs.splice(i, 1)\<close>: the array without its element at \<open>i\<close>.\<close>

definition splice1 :: "nat \<Rightarrow> 'a list \<Rightarrow> 'a list" where
  "splice1 i xs = take i xs @ drop (Suc i) xs"

section \<open>Numbers\<close>

text \<open>
  A JavaScript number is an IEEE 754 double. A finite double is kept as the rational it
  denotes (the two zeros are one value: the program never observes the sign of zero),
  and every arithmetic result is rounded to the nearest double by \<open>fl\<close>.
\<close>

datatype jsnum = NaN | PosInf | NegInf | Fin rat

text \<open>For \<open>x > 0\<close>: the exponent \<open>e\<close> with \<open>2^e \<le> x < 2^(e+1)\<close>.\<close>

definition floor_log2 :: "rat \<Rightarrow> int" where
  "floor_log2 x = (if 1 \<le> x then bitlen \<lfloor>x\<rfloor> - 1 else - bitlen (\<lceil>1 / x\<rceil> - 1))"

definition round_half_even :: "rat \<Rightarrow> int" where
  "round_half_even x =
     (let n = \<lfloor>x\<rfloor>; r = x - of_int n
      in if r < 1 / 2 then n else if 1 / 2 < r then n + 1 else if even n then n else n + 1)"

text \<open>
  Round to nearest, ties to even, with 53 bits of mantissa, gradual underflow below
  \<open>2^-1022\<close> and overflow to an infinity from \<open>2^1024 - 2^970\<close> on.
\<close>

definition fl :: "rat \<Rightarrow> jsnum" where
  "fl x =
     (if x = 0 then Fin 0
      else let e = floor_log2 \<bar>x\<bar>
           in if 1023 < e then (if 0 < x then PosInf else NegInf)
              else let u = 2 powi (max e (- 1022) - 52);
                       n = round_half_even (\<bar>x\<bar> / u)
                   in if e = 1023 \<and> n = 2 ^ 53 then (if 0 < x then PosInf else NegInf)
                      else Fin (sgn x * of_int n * u))"

fun js_add :: "jsnum \<Rightarrow> jsnum \<Rightarrow> jsnum" where
  "js_add (Fin a) (Fin b) = fl (a + b)"
| "js_add NaN _ = NaN"
| "js_add _ NaN = NaN"
| "js_add PosInf NegInf = NaN"
| "js_add NegInf PosInf = NaN"
| "js_add PosInf _ = PosInf"
| "js_add _ PosInf = PosInf"
| "js_add NegInf _ = NegInf"
| "js_add _ NegInf = NegInf"

fun js_mul :: "jsnum \<Rightarrow> jsnum \<Rightarrow> jsnum" where
  "js_mul (Fin a) (Fin b) = fl (a * b)"
| "js_mul NaN _ = NaN"
| "js_mul _ NaN = NaN"
| "js_mul PosInf (Fin b) = (if b = 0 then NaN else if 0 < b then PosInf else NegInf)"
| "js_mul NegInf (Fin b) = (if b = 0 then NaN else if 0 < b then NegInf else PosInf)"
| "js_mul (Fin a) PosInf = (if a = 0 then NaN else if 0 < a then PosInf else NegInf)"
| "js_mul (Fin a) NegInf = (if a = 0 then NaN else if 0 < a then NegInf else PosInf)"
| "js_mul PosInf PosInf = PosInf"
| "js_mul NegInf NegInf = PosInf"
| "js_mul PosInf NegInf = NegInf"
| "js_mul NegInf PosInf = NegInf"


text \<open>\<open>a - b\<close> and \<open>a >= b\<close>; a comparison with \<open>NaN\<close> is false.\<close>

fun js_sub :: "jsnum \<Rightarrow> jsnum \<Rightarrow> jsnum" where
  "js_sub (Fin a) (Fin b) = fl (a - b)"
| "js_sub NaN _ = NaN"
| "js_sub _ NaN = NaN"
| "js_sub PosInf PosInf = NaN"
| "js_sub NegInf NegInf = NaN"
| "js_sub PosInf _ = PosInf"
| "js_sub _ NegInf = PosInf"
| "js_sub NegInf _ = NegInf"
| "js_sub _ PosInf = NegInf"

fun js_ge :: "jsnum \<Rightarrow> jsnum \<Rightarrow> bool" where
  "js_ge (Fin a) (Fin b) = (b \<le> a)"
| "js_ge NaN _ = False"
| "js_ge _ NaN = False"
| "js_ge PosInf _ = True"
| "js_ge _ NegInf = True"
| "js_ge NegInf _ = False"
| "js_ge _ PosInf = False"

definition isNaN :: "jsnum \<Rightarrow> bool" where
  "isNaN x \<longleftrightarrow> x = NaN"

section \<open>Data model\<close>

text \<open>
  The declarations of \<open>MenuItem\<close> and \<open>OrderItem\<close> (\<open>./types\<close>) are not among the
  sources; the records hold the fields the code reads and copies. \<open>price\<close> is
  \<open>string | number\<close>, as \<open>parsePrice\<close> takes it, and \<open>quantity\<close> is a \<open>number\<close>: the code
  adds, subtracts and compares quantities as doubles. The field \<open>id\<close> is \<open>item_id\<close> and
  \<open>image\<close> is \<open>image_src\<close> here.
\<close>

datatype price = PriceString jsstring | PriceNumber jsnum

record MenuItem =
  item_id :: jsstring
  name :: jsstring
  price :: price
  pieces :: "int option"
  description :: jsstring
  image_src :: jsstring
  category :: jsstring
  tasteProfiles :: "jsstring list"

record OrderItem = MenuItem +
  quantity :: jsnum
  customizationNotes :: "jsstring option"

text \<open>\<open>{ ...menuItem, quantity: q, customizationNotes: n }\<close>\<close>

definition mk_line :: "MenuItem \<Rightarrow> jsnum \<Rightarrow> jsstring option \<Rightarrow> OrderItem" where
  "mk_line m q n =
     \<lparr>item_id = item_id m, name = name m, price = price m, pieces = pieces m,
      description = description m, image_src = image_src m, category = category m,
      tasteProfiles = tasteProfiles m, quantity = q, customizationNotes = n\<rparr>"

text \<open>A request \<open>{ itemName, quantity, customizationNotes? }\<close> of a batch.\<close>

record OrderRequest =
  itemName :: jsstring
  reqQuantity :: jsnum
  reqNotes :: "jsstring option"

text \<open>\<open>notes || ''\<close>: absent and empty notes are the same.\<close>

definition norm_notes :: "jsstring option \<Rightarrow> jsstring" where
  "norm_notes n = (case n of None \<Rightarrow> [] | Some s \<Rightarrow> s)"

text \<open>The pair that identifies a line of the ledger.\<close>

definition line_key :: "OrderItem \<Rightarrow> jsstring \<times> jsstring" where
  "line_key oi = (item_id oi, norm_notes (customizationNotes oi))"

definition ledger_ok :: "OrderItem list \<Rightarrow> bool" where
  "ledger_ok ledger \<longleftrightarrow> distinct (map line_key ledger)"

section \<open>The order ledger\<close>

text \<open>
  The ledger is the array \<open>orderItems\<close>; a reducer passed to \<open>setOrderItems\<close> is modelled
  as the function from the array it receives to the array it returns. The batch
  reducers work on a copy of the array that holds the same line objects, and
  \<open>workingOrder[i].quantity += q\<close> writes into such an object: the new quantity is also
  seen through \<open>prevOrder\<close> and through the \<open>items\<close> of a bill stored earlier, which hold
  the same object. The functions below give the returned array only.
\<close>

text \<open>\<open>activeMenuItems.find(item => item.name.toLowerCase() === n.toLowerCase().trim())\<close>\<close>

definition find_menu ::
  "(jsstring \<Rightarrow> jsstring) \<Rightarrow> MenuItem list \<Rightarrow> jsstring \<Rightarrow> MenuItem option" where
  "find_menu toLowerCase menu n =
     find (\<lambda>item. toLowerCase (name item) = trim (toLowerCase n)) menu"

text \<open>\<open>oi.id === id && (oi.customizationNotes || '') === notes\<close>\<close>

definition same_line :: "jsstring \<Rightarrow> jsstring \<Rightarrow> OrderItem \<Rightarrow> bool" where
  "same_line i notes oi \<longleftrightarrow> item_id oi = i \<and> norm_notes (customizationNotes oi) = notes"

text \<open>\<open>workingOrder[i].quantity += q\<close>\<close>

definition add_quantity :: "nat \<Rightarrow> jsnum \<Rightarrow> OrderItem list \<Rightarrow> OrderItem list" where
  "add_quantity i q xs = xs[i := (xs ! i)\<lparr>quantity := js_add (quantity (xs ! i)) q\<rparr>]"

text \<open>
  \<open>handleAddItemToOrder\<close>, as the reducer passed to \<open>setOrderItems\<close>; the quantity
  defaults to 1. The changed line is a new object here.
\<close>

definition handleAddItemToOrder ::
  "MenuItem \<Rightarrow> jsnum option \<Rightarrow> jsstring option \<Rightarrow> OrderItem list \<Rightarrow> OrderItem list" where
  "handleAddItemToOrder itemToAdd qty notes prevOrder =
     (let q = (case qty of None \<Rightarrow> Fin 1 | Some n \<Rightarrow> n)
      in case findIndex (same_line (item_id itemToAdd) (norm_notes notes)) prevOrder of
           Some e \<Rightarrow>
             mapIndex (\<lambda>oi index. if index = e then oi\<lparr>quantity := js_add (quantity oi) q\<rparr> else oi)
               0 prevOrder
         | None \<Rightarrow> prevOrder @ [mk_line itemToAdd q notes])"

text \<open>
  The locals of the two batch loops. \<open>actionMessages\<close> and \<open>removedItemsMessages\<close> are
  filled by the source and never read, so the model leaves them out.
\<close>

record loop_state =
  workingOrder :: "OrderItem list"
  itemsActuallyProcessed :: bool
  notFound :: "jsstring list"

text \<open>One iteration of the \<open>for\<close> loop of \<open>handleMultiItemOrder\<close>.\<close>

definition order_step ::
  "(jsstring \<Rightarrow> jsstring) \<Rightarrow> MenuItem list \<Rightarrow> loop_state \<Rightarrow> OrderRequest \<Rightarrow> loop_state" where
  "order_step toLowerCase menu st order =
     (case find_menu toLowerCase menu (itemName order) of
        None \<Rightarrow> st\<lparr>notFound := notFound st @ [itemName order]\<rparr>
      | Some menuItem \<Rightarrow>
          (let incomingNotes = norm_notes (reqNotes order);
               incomingQuantity = reqQuantity order;
               wo = workingOrder st;
               st' = st\<lparr>itemsActuallyProcessed := True\<rparr>
           in case findIndex (same_line (item_id menuItem) incomingNotes) wo of
                Some e \<Rightarrow> st'\<lparr>workingOrder := add_quantity e incomingQuantity wo\<rparr>
              | None \<Rightarrow>
                  (case (if incomingNotes \<noteq> [] then findIndex (same_line (item_id menuItem) []) wo
                         else None) of
                     Some p \<Rightarrow>
                       (let wo' = splice1 p wo
                        in case findIndex (same_line (item_id menuItem) incomingNotes) wo' of
                             Some c \<Rightarrow> st'\<lparr>workingOrder := add_quantity c incomingQuantity wo'\<rparr>
                           | None \<Rightarrow>
                               st'\<lparr>workingOrder :=
                                     wo' @ [mk_line menuItem incomingQuantity (Some incomingNotes)]\<rparr>)
                   | None \<Rightarrow>
                       st'\<lparr>workingOrder :=
                             wo @ [mk_line menuItem incomingQuantity (Some incomingNotes)]\<rparr>)))"

text \<open>
  \<open>handleMultiItemOrder\<close>: the new ledger and the messages given to the sink
  \<open>addSystemMessageToChat\<close> (\<open>sink\<close> tells whether the caller passed one).
\<close>

definition order_messages :: "bool \<Rightarrow> loop_state \<Rightarrow> OrderRequest list \<Rightarrow> jsstring list" where
  "order_messages sink st orders =
     (if sink then
        (if notFound st \<noteq> []
         then [js ''Could not find: '' @ join (js '', '') (notFound st) @ js '' on the menu.'']
         else [])
        @ (if \<not> itemsActuallyProcessed st \<and> notFound st = [] \<and> orders \<noteq> []
           then [js ''I couldn't identify any items from your request to add to the order.'']
           else [])
      else [])"

definition order_loop ::
  "(jsstring \<Rightarrow> jsstring) \<Rightarrow> MenuItem list \<Rightarrow> OrderItem list \<Rightarrow> OrderRequest list \<Rightarrow> loop_state" where
  "order_loop toLowerCase menu prevOrder orders =
     foldl (order_step toLowerCase menu)
       \<lparr>workingOrder = prevOrder, itemsActuallyProcessed = False, notFound = []\<rparr> orders"

definition handleMultiItemOrder ::
  "(jsstring \<Rightarrow> jsstring) \<Rightarrow> MenuItem list \<Rightarrow> bool \<Rightarrow> OrderRequest list \<Rightarrow> OrderItem list \<Rightarrow> OrderItem list \<times> jsstring list" where
  "handleMultiItemOrder toLowerCase menu sink orders prevOrder =
     (let st = order_loop toLowerCase menu prevOrder orders
      in (workingOrder st, order_messages sink st orders))"

text \<open>One iteration of the \<open>for\<close> loop of \<open>handleMultiItemRemoval\<close>.\<close>

definition removal_step ::
  "(jsstring \<Rightarrow> jsstring) \<Rightarrow> MenuItem list \<Rightarrow> loop_state \<Rightarrow> OrderRequest \<Rightarrow> loop_state" where
  "removal_step toLowerCase menu st removal =
     (case find_menu toLowerCase menu (itemName removal) of
        None \<Rightarrow>
          st\<lparr>notFound := notFound st @ [js [CHR 0x27] @ itemName removal @ js ''' (not on menu)'']\<rparr>
      | Some menuItem \<Rightarrow>
          (let notes = norm_notes (reqNotes removal);
               wo = workingOrder st
           in case findIndex (same_line (item_id menuItem) notes) wo of
                None \<Rightarrow>
                  (let searchName =
                         name menuItem @ (if notes \<noteq> [] then js '' (Custom: '' @ notes @ js '')'' else [])
                   in st\<lparr>notFound := notFound st @
                           [js [CHR 0x27] @ searchName @
                            js ''' (not in current order or exact customization not found)'']\<rparr>)
              | Some e \<Rightarrow>
                  (let itemInOrder = wo ! e;
                       quantityToRemove = reqQuantity removal
                   in if js_ge quantityToRemove (quantity itemInOrder)
                      then st\<lparr>itemsActuallyProcessed := True,
                              workingOrder := filterIndex (\<lambda>_ index. index \<noteq> e) 0 wo\<rparr>
                      else st\<lparr>itemsActuallyProcessed := True,
                              workingOrder :=
                                mapIndex (\<lambda>oi index.
                                    if index = e
                                    then oi\<lparr>quantity := js_sub (quantity oi) quantityToRemove\<rparr>
                                    else oi) 0 wo\<rparr>)))"

definition removal_messages :: "bool \<Rightarrow> loop_state \<Rightarrow> OrderRequest list \<Rightarrow> jsstring list" where
  "removal_messages sink st removals =
     (if sink then
        (if notFound st \<noteq> []
         then [js ''Could not process removals for: '' @ join (js '', '') (notFound st) @ js ''.'']
         else [])
        @ (if \<not> itemsActuallyProcessed st \<and> notFound st = [] \<and> removals \<noteq> []
           then [js ''I couldn't identify any items from your request to remove.'']
           else [])
      else [])"

definition removal_loop ::
  "(jsstring \<Rightarrow> jsstring) \<Rightarrow> MenuItem list \<Rightarrow> OrderItem list \<Rightarrow> OrderRequest list \<Rightarrow> loop_state" where
  "removal_loop toLowerCase menu prevOrder removals =
     foldl (removal_step toLowerCase menu)
       \<lparr>workingOrder = prevOrder, itemsActuallyProcessed = False, notFound = []\<rparr> removals"

definition handleMultiItemRemoval ::
  "(jsstring \<Rightarrow> jsstring) \<Rightarrow> MenuItem list \<Rightarrow> bool \<Rightarrow> OrderRequest list \<Rightarrow> OrderItem list \<Rightarrow> OrderItem list \<times> jsstring list" where
  "handleMultiItemRemoval toLowerCase menu sink removals prevOrder =
     (let st = removal_loop toLowerCase menu prevOrder removals
      in (workingOrder st, removal_messages sink st removals))"
section \<open>Decimal digits\<close>

definition isDigit :: "nat \<Rightarrow> bool" where
  "isDigit c \<longleftrightarrow> 48 \<le> c \<and> c \<le> 57"

text \<open>The number a string of decimal digits denotes, most significant digit first.\<close>

definition digits_val :: "jsstring \<Rightarrow> nat" where
  "digits_val ds = foldl (\<lambda>a c. 10 * a + (c - 48)) 0 ds"

text \<open>The decimal representation of \<open>n\<close>, without leading zeros (\<open>0\<close> for zero).\<close>

fun digits_of :: "nat \<Rightarrow> jsstring" where
  "digits_of n = (if n < 10 then [48 + n] else digits_of (n div 10) @ [48 + n mod 10])"

declare digits_of.simps [simp del]

section \<open>\<open>Number.prototype.toFixed(2)\<close>\<close>

text \<open>
  \<open>Number::toString\<close> for a finite \<open>x \<ge> 10^21\<close>, the only case \<open>toFixed\<close> hands over:
  integers \<open>n\<close>, \<open>k\<close> and \<open>s\<close> with \<open>k\<close> digits in \<open>s\<close> and \<open>fl (s * 10^(n-k)) = x\<close>, \<open>k\<close> as
  small as possible and then \<open>s * 10^(n-k)\<close> as close to \<open>x\<close> as possible (the even \<open>s\<close> of
  two equally close ones), written in exponent notation. \<open>denotes x s n\<close> is the test on a
  candidate. \<open>shortest_digits x n k\<close> tries the digit counts from \<open>k\<close> on, where \<open>n\<close> is the
  number of digits of the integer part of \<open>x\<close>: with \<open>k\<close> digits the candidates are the
  two neighbours of \<open>x / 10^(n-k)\<close>, and the upper one is \<open>10^(k-1)\<close> with \<open>n + 1\<close> when it
  has reached \<open>10^k\<close>.
\<close>

definition denotes :: "rat \<Rightarrow> nat \<Rightarrow> nat \<Rightarrow> bool" where
  "denotes x s n \<longleftrightarrow> fl (of_nat s * 10 powi (int n - int (length (digits_of s)))) = Fin x"

function shortest_digits :: "rat \<Rightarrow> nat \<Rightarrow> nat \<Rightarrow> nat \<times> nat" where
  "shortest_digits x n k =
     (if n \<le> k then (nat \<lfloor>x\<rfloor>, n)
      else let p = 10 ^ (n - k);
               lo = nat \<lfloor>x / p\<rfloor>;
               hi = lo + 1;
               up = (if hi = 10 ^ k then (10 ^ (k - 1), n + 1) else (hi, n));
               lo_ok = denotes x lo n;
               hi_ok = denotes x (fst up) (snd up)
           in if lo_ok \<and> hi_ok
              then (if x - of_nat lo * p < of_nat hi * p - x then (lo, n)
                    else if of_nat hi * p - x < x - of_nat lo * p then up
                    else if even lo then (lo, n) else up)
              else if lo_ok then (lo, n)
              else if hi_ok then up
              else shortest_digits x n (Suc k))"
  by pat_completeness auto
termination
  by (relation "measure (\<lambda>(x, n, k). n - k)") auto

declare shortest_digits.simps [simp del]

definition toString_exponential :: "rat \<Rightarrow> jsstring" where
  "toString_exponential x =
     (let (s, n) = shortest_digits x (length (digits_of (nat \<lfloor>x\<rfloor>))) 1;
          ds = digits_of s
      in (if length ds = 1 then ds else take 1 ds @ js ''.'' @ drop 1 ds)
         @ js ''e+'' @ digits_of (n - 1))"

definition toFixed2 :: "jsnum \<Rightarrow> jsstring" where
  "toFixed2 x =
     (case x of
        NaN \<Rightarrow> js ''NaN''
      | PosInf \<Rightarrow> js ''Infinity''
      | NegInf \<Rightarrow> js ''-Infinity''
      | Fin r \<Rightarrow>
          (let s = (if r < 0 then js ''-'' else []);
               a = \<bar>r\<bar>
           in if 10 ^ 21 \<le> a then s @ toString_exponential a
              else let n = nat \<lfloor>a * 100 + 1 / 2\<rfloor>;
                       m = digits_of n;
                       m' = (if length m \<le> 2 then replicate (3 - length m) 48 @ m else m);
                       k = length m'
                   in s @ take (k - 2) m' @ js ''.'' @ drop (k - 2) m'))"

section \<open>\<open>parseFloat\<close> and \<open>Number\<close>\<close>

text \<open>An optional sign.\<close>

definition lex_sign :: "jsstring \<Rightarrow> int \<times> jsstring" where
  "lex_sign s =
     (case s of
        [] \<Rightarrow> (1, s)
      | c # r \<Rightarrow> if c = 43 then (1, r) else if c = 45 then (- 1, r) else (1, s))"

text \<open>
  \<open>ExponentPart\<close>, if one is there: \<open>e\<close> or \<open>E\<close>, an optional sign and at least one digit.
\<close>

definition lex_exponent :: "jsstring \<Rightarrow> int \<times> jsstring" where
  "lex_exponent s =
     (case s of
        [] \<Rightarrow> (0, s)
      | c # r \<Rightarrow>
          if c = 101 \<or> c = 69
          then (let (sg, r') = lex_sign r; ds = takeWhile isDigit r'
                in if ds = [] then (0, s) else (sg * int (digits_val ds), dropWhile isDigit r'))
          else (0, s))"

text \<open>
  The longest prefix that is a \<open>StrUnsignedDecimalLiteral\<close> other than \<open>Infinity\<close>: its
  mathematical value and the rest of the string.
\<close>

definition lex_unsigned :: "jsstring \<Rightarrow> (rat \<times> jsstring) option" where
  "lex_unsigned s =
     (let ds1 = takeWhile isDigit s;
          r1 = dropWhile isDigit s;
          (ds2, r2) =
            (case r1 of
               [] \<Rightarrow> ([], r1)
             | c # t \<Rightarrow>
                 if c = 46 \<and> (ds1 \<noteq> [] \<or> takeWhile isDigit t \<noteq> [])
                 then (takeWhile isDigit t, dropWhile isDigit t)
                 else ([], r1))
      in if ds1 = [] \<and> ds2 = [] then None
         else let (e, r3) = lex_exponent r2
              in Some (of_nat (digits_val (ds1 @ ds2)) * 10 powi (e - int (length ds2)), r3))"

text \<open>The longest prefix that is a \<open>StrDecimalLiteral\<close>: its Number value and the rest.\<close>

definition lex_StrDecimalLiteral :: "jsstring \<Rightarrow> (jsnum \<times> jsstring) option" where
  "lex_StrDecimalLiteral s =
     (let (sg, r) = lex_sign s
      in if take 8 r = js ''Infinity'' then Some (if sg = 1 then PosInf else NegInf, drop 8 r)
         else case lex_unsigned r of
                None \<Rightarrow> None
              | Some (v, rest) \<Rightarrow> Some (fl (of_int sg * v), rest))"

definition parseFloat :: "jsstring \<Rightarrow> jsnum" where
  "parseFloat s =
     (case lex_StrDecimalLiteral (trimStart s) of None \<Rightarrow> NaN | Some (v, _) \<Rightarrow> v)"

text \<open>Digits of a \<open>NonDecimalIntegerLiteral\<close> in the given radix.\<close>

definition radix_digit :: "nat \<Rightarrow> nat \<Rightarrow> nat option" where
  "radix_digit radix c =
     (let v = (if 48 \<le> c \<and> c \<le> 57 then c - 48
               else if 97 \<le> c \<and> c \<le> 102 then c - 87
               else if 65 \<le> c \<and> c \<le> 70 then c - 55
               else 16)
      in if v < radix then Some v else None)"

fun radix_val :: "nat \<Rightarrow> nat \<Rightarrow> jsstring \<Rightarrow> nat option" where
  "radix_val radix acc [] = Some acc"
| "radix_val radix acc (c # cs) =
     (case radix_digit radix c of
        None \<Rightarrow> None
      | Some v \<Rightarrow> radix_val radix (radix * acc + v) cs)"

text \<open>
  \<open>Number(s)\<close> for a string (StringToNumber): white space is trimmed, the empty string is
  0, and anything that is not a \<open>StrNumericLiteral\<close> as a whole is \<open>NaN\<close>.
\<close>

definition non_decimal_radix :: "jsstring \<Rightarrow> nat option" where
  "non_decimal_radix t =
     (case t of
        c # d # _ \<Rightarrow>
          if c = 48 then
            (if d = 120 \<or> d = 88 then Some 16
             else if d = 111 \<or> d = 79 then Some 8
             else if d = 98 \<or> d = 66 then Some 2
             else None)
          else None
      | _ \<Rightarrow> None)"

definition Number_js :: "jsstring \<Rightarrow> jsnum" where
  "Number_js s =
     (let t = trim s
      in if t = [] then Fin 0
         else case non_decimal_radix t of
                Some radix \<Rightarrow>
                  (if drop 2 t = [] then NaN
                   else case radix_val radix 0 (drop 2 t) of
                          None \<Rightarrow> NaN
                        | Some v \<Rightarrow> fl (of_nat v))
              | None \<Rightarrow>
                  (case lex_StrDecimalLiteral t of
                     Some (v, []) \<Rightarrow> v
                   | _ \<Rightarrow> NaN))"

section \<open>Money\<close>

definition parsePrice :: "price \<Rightarrow> jsnum" where
  "parsePrice priceString =
     (case priceString of
        PriceNumber n \<Rightarrow> n
      | PriceString s \<Rightarrow> parseFloat (trim (replace_first rupee s)))"

definition formatPrice :: "jsnum \<Rightarrow> jsstring" where
  "formatPrice priceNumber = rupee # toFixed2 priceNumber"


definition order_total :: "OrderItem list \<Rightarrow> jsnum" where
  "order_total currentOrderItems =
     foldl (\<lambda>sum item. js_add sum (js_mul (parsePrice (price item)) (quantity item)))
       (Fin 0) currentOrderItems"

definition calculateSubtotal :: "OrderItem list \<Rightarrow> jsstring" where
  "calculateSubtotal currentOrderItems = formatPrice (order_total currentOrderItems)"

section \<open>The application state\<close>

datatype Page = Welcome | TableNumberEntry | Chat | Bill | FinalConfirmation

record BillDataType =
  items :: "OrderItem list"
  subtotal :: jsstring
  gstAmount :: jsstring
  grandTotal :: jsstring
  tableNumber :: jsstring

text \<open>
  The document given to \<open>addDoc\<close>: the bill with \<open>status\<close> and \<open>timestamp\<close>. Its \<open>items\<close> are
  the \<open>cleanedItems\<close>; deleting a \<open>customizationNotes\<close> that is \<open>undefined\<close> leaves the
  model's \<open>None\<close>, so they are the bill's items.
\<close>

record BillDocument = BillDataType +
  status :: jsstring
  timestamp :: jsstring

text \<open>
  The state of \<open>App\<close> that the checkout and the submission read and write
  (\<open>tableNumber_st\<close> is the state variable \<open>tableNumber\<close>), and a log of their effects:
  the documents passed to \<open>addDoc(collection(db, "bills"), ...)\<close>, the number of
  \<open>console.warn\<close> calls and the texts of \<open>alert\<close>.
\<close>

record AppState =
  currentPage :: Page
  orderItems :: "OrderItem list"
  currentBillData :: "BillDataType option"
  tableNumber_st :: jsstring
  isSubmitting :: bool
  addDoc_bills :: "BillDocument list"
  console_warn :: nat
  alerts :: "jsstring list"

definition navigateTo :: "Page \<Rightarrow> AppState \<Rightarrow> AppState" where
  "navigateTo page st = st\<lparr>currentPage := page\<rparr>"

text \<open>
  \<open>handleCheckoutAndGoToBill\<close>: the returned boolean and the new state. \<open>GST_RATE\<close>
  (\<open>./constants\<close>) is not among the sources and is a parameter.
\<close>

definition handleCheckoutAndGoToBill :: "jsnum \<Rightarrow> AppState \<Rightarrow> bool \<times> AppState" where
  "handleCheckoutAndGoToBill GST_RATE st =
     (if orderItems st = [] then (False, st)
      else let subtotalNum = parsePrice (PriceString (calculateSubtotal (orderItems st)));
               gstAmountNum = js_mul subtotalNum GST_RATE;
               grandTotalNum = js_add subtotalNum gstAmountNum
           in (True,
               navigateTo Bill
                 (st\<lparr>currentBillData := Some
                       \<lparr>items = orderItems st,
                        subtotal = formatPrice subtotalNum,
                        gstAmount = formatPrice gstAmountNum,
                        grandTotal = formatPrice grandTotalNum,
                        tableNumber = tableNumber_st st\<rparr>\<rparr>)))"

text \<open>The test that guards the remote write in \<open>handleConfirmOrderAndGoToFinalConfirmation\<close>.\<close>

definition bill_accepted :: "BillDataType option \<Rightarrow> bool" where
  "bill_accepted b =
     (case b of
        None \<Rightarrow> False
      | Some d \<Rightarrow>
          items d \<noteq> []
          \<and> \<not> isNaN (Number_js (subtotal d))
          \<and> \<not> isNaN (Number_js (gstAmount d))
          \<and> \<not> isNaN (Number_js (grandTotal d)))"

definition bill_document :: "jsstring \<Rightarrow> BillDataType \<Rightarrow> BillDocument" where
  "bill_document now d =
     \<lparr>items = items d, subtotal = subtotal d, gstAmount = gstAmount d,
      grandTotal = grandTotal d, tableNumber = tableNumber d,
      status = js ''pending'', timestamp = now\<rparr>"

text \<open>
  \<open>handleConfirmOrderAndGoToFinalConfirmation\<close> is made by \<open>useCallback\<close> with the
  dependencies \<open>currentBillData\<close>, \<open>navigateTo\<close> and \<open>isSubmitting\<close>: the function reads the
  values these had in the render that created it, whatever the state has become since.
  \<open>Closure\<close> holds the two values it reads and \<open>render_handler\<close> is the closure a render
  in state \<open>st\<close> creates.
\<close>

record Closure =
  captured_isSubmitting :: bool
  captured_currentBillData :: "BillDataType option"

definition render_handler :: "AppState \<Rightarrow> Closure" where
  "render_handler st =
     \<lparr>captured_isSubmitting = isSubmitting st,
      captured_currentBillData = currentBillData st\<rparr>"

text \<open>
  The handler is asynchronous. \<open>confirm_trigger\<close> is the part that runs when the function
  with closure \<open>c\<close> is called in state \<open>st\<close>, up to the \<open>await\<close> of \<open>addDoc\<close> (\<open>now\<close> is
  \<open>new Date().toISOString()\<close>): the tests read the closure, the setters and the log act
  on the state. \<open>confirm_resolved\<close> and \<open>confirm_rejected\<close> are what runs when the write
  succeeds or fails, each followed by the \<open>finally\<close> block.
\<close>

definition confirm_trigger :: "jsstring \<Rightarrow> Closure \<Rightarrow> AppState \<Rightarrow> AppState" where
  "confirm_trigger now c st =
     (if captured_isSubmitting c then st
      else if bill_accepted (captured_currentBillData c)
      then (case captured_currentBillData c of
              Some d \<Rightarrow> st\<lparr>isSubmitting := True,
                            addDoc_bills := addDoc_bills st @ [bill_document now d]\<rparr>
            | None \<Rightarrow> st)
      else navigateTo FinalConfirmation (st\<lparr>console_warn := console_warn st + 1\<rparr>))"


definition confirm_resolved :: "AppState \<Rightarrow> AppState" where
  "confirm_resolved st =
     (navigateTo FinalConfirmation (st\<lparr>orderItems := []\<rparr>))\<lparr>isSubmitting := False\<rparr>"

definition confirm_rejected :: "AppState \<Rightarrow> AppState" where
  "confirm_rejected st =
     st\<lparr>alerts := alerts st @ [js ''Failed to send order to kitchen.''], isSubmitting := False\<rparr>"

definition initial_state :: AppState where
  "initial_state =
     \<lparr>currentPage = Welcome, orderItems = [], currentBillData = None, tableNumber_st = [],
      isSubmitting = False, addDoc_bills = [], console_warn = 0, alerts = []\<rparr>"

section \<open>Whole quantities\<close>

text \<open>
  The data model takes a quantity to be a positive integer. \<open>positive_integer q\<close> says
  that the number \<open>q\<close> is one, and \<open>int_of q\<close> is the integer part of a finite \<open>q\<close>.
\<close>

definition positive_integer :: "jsnum \<Rightarrow> bool" where
  "positive_integer q = (case q of Fin r \<Rightarrow> 1 \<le> r \<and> r = of_int \<lfloor>r\<rfloor> | _ \<Rightarrow> False)"

definition int_of :: "jsnum \<Rightarrow> int" where
  "int_of q = (case q of Fin r \<Rightarrow> \<lfloor>r\<rfloor> | _ \<Rightarrow> 0)"

section \<open>Example data\<close>

definition burger :: MenuItem where
  "burger = \<lparr>item_id = js ''m1'', name = js ''Burger'', price = PriceString (rupee # js ''100''),
     pieces = None, description = js ''Veg burger'', image_src = [], category = js ''Mains'',
     tasteProfiles = []\<rparr>"

definition fries :: MenuItem where
  "fries = \<lparr>item_id = js ''m2'', name = js ''Fries'', price = PriceNumber (Fin 60),
     pieces = Some 12, description = js ''Salted fries'', image_src = [], category = js ''Sides'',
     tasteProfiles = [js ''salty'']\<rparr>"

definition demo_menu :: "MenuItem list" where
  "demo_menu = [burger, fries]"

definition request :: "string \<Rightarrow> jsnum \<Rightarrow> string option \<Rightarrow> OrderRequest" where
  "request n q c = \<lparr>itemName = js n, reqQuantity = q, reqNotes = map_option js c\<rparr>"

definition demo_state :: AppState where
  "demo_state =
     initial_state\<lparr>currentPage := Chat, orderItems := [mk_line burger (Fin 2) None],
       tableNumber_st := js ''5''\<rparr>"

definition plain_bill :: BillDataType where
  "plain_bill =
     \<lparr>items = [mk_line burger (Fin 2) None], subtotal = js ''200.00'', gstAmount = js ''36.00'',
      grandTotal = js ''236.00'', tableNumber = js ''5''\<rparr>"

definition demo_rate :: jsnum where
  "demo_rate = fl (18 / 100)"

definition demo_now :: jsstring where
  "demo_now = js ''2026-01-01T00:00:00.000Z''"

section \<open>Arrays: facts\<close>

lemma findIndex_None: "findIndex P xs = None \<longleftrightarrow> (\<forall>x \<in> set xs. \<not> P x)"
  by (induction xs) auto

lemma findIndex_Some:
  "findIndex P xs = Some i \<Longrightarrow> i < length xs \<and> P (xs ! i) \<and> (\<forall>j < i. \<not> P (xs ! j))"
proof (induction xs arbitrary: i)
  case Nil
  then show ?case by simp
next
  case (Cons x xs)
  show ?case
  proof (cases "P x")
    case True
    with Cons.prems show ?thesis by simp
  next
    case False
    with Cons.prems obtain k where k: "findIndex P xs = Some k" "i = Suc k"
      by auto
    from Cons.IH [OF k(1)] False k(2) show ?thesis
      by (auto simp: less_Suc_eq_0_disj)
  qed
qed

lemma mapIndex_update:
  "e < length xs \<Longrightarrow>
   mapIndex (\<lambda>x index. if index = e + i then f x else x) i xs = xs[e := f (xs ! e)]"
proof (induction xs arbitrary: e i)
  case Nil
  then show ?case by simp
next
  case (Cons x xs)
  show ?case
  proof (cases e)
    case 0
    have "mapIndex (\<lambda>x index. if index = i then f x else x) (Suc i + k) ys = ys" for ys k
      by (induction ys arbitrary: k) (simp_all flip: add_Suc_right)
    from this [of 0] 0 show ?thesis by simp
  next
    case (Suc e')
    with Cons.prems have "e' < length xs" by simp
    from Cons.IH [OF this, of "Suc i"] Suc show ?thesis by simp
  qed
qed

lemma filterIndex_splice:
  "e < length xs \<Longrightarrow> filterIndex (\<lambda>_ index. index \<noteq> e + i) i xs = splice1 e xs"
proof (induction xs arbitrary: e i)
  case Nil
  then show ?case by simp
next
  case (Cons x xs)
  show ?case
  proof (cases e)
    case 0
    have "filterIndex (\<lambda>_ index. index \<noteq> i) (Suc i + k) ys = ys" for ys :: "'a list" and k
      by (induction ys arbitrary: k) (simp_all flip: add_Suc_right)
    from this [of 0] 0 show ?thesis by (simp add: splice1_def)
  next
    case (Suc e')
    with Cons.prems have "e' < length xs" by simp
    from Cons.IH [OF this, of "Suc i"] Suc show ?thesis by (simp add: splice1_def)
  qed
qed

section \<open>The order ledger: facts\<close>

lemma line_key_quantity [simp]: "line_key (oi\<lparr>quantity := q\<rparr>) = line_key oi"
  by (simp add: line_key_def)

lemma line_key_mk_line [simp]: "line_key (mk_line m q n) = (item_id m, norm_notes n)"
  by (simp add: line_key_def mk_line_def)

lemma same_line_key: "same_line i n oi \<longleftrightarrow> line_key oi = (i, n)"
  by (auto simp: same_line_def line_key_def)

lemma map_key_add_quantity [simp]:
  "map line_key (add_quantity e q xs) = map line_key xs"
  by (simp add: add_quantity_def map_update) (metis list_update_id map_update)

lemma distinct_splice1: "distinct (map f xs) \<Longrightarrow> distinct (map f (splice1 p xs))"
proof -
  assume d: "distinct (map f xs)"
  have "map f xs = map f (take p xs) @ map f (drop p xs)"
    by (metis append_take_drop_id map_append)
  with d have "distinct (map f (take p xs) @ map f (drop p xs))" by simp
  moreover have "set (drop (Suc p) xs) \<subseteq> set (drop p xs)"
    by (simp add: set_drop_subset_set_drop)
  moreover have "distinct (map f (drop (Suc p) xs))"
    using d by (metis distinct_drop drop_map)
  ultimately show ?thesis
    unfolding splice1_def by (auto simp: distinct_map)
qed

lemma ledger_ok_order_step:
  assumes "ledger_ok (workingOrder st)"
  shows "ledger_ok (workingOrder (order_step toLowerCase menu st r))"
proof (cases "find_menu toLowerCase menu (itemName r)")
  case None
  with assms show ?thesis by (simp add: order_step_def)
next
  case (Some m)
  let ?n = "norm_notes (reqNotes r)"
  let ?wo = "workingOrder st"
  show ?thesis
  proof (cases "findIndex (same_line (item_id m) ?n) ?wo")
    case (Some e)
    with \<open>find_menu toLowerCase menu (itemName r) = Some m\<close> assms show ?thesis
      by (simp add: order_step_def Let_def ledger_ok_def)
  next
    case None
    then have fresh: "(item_id m, ?n) \<notin> set (map line_key ?wo)"
      by (auto simp: findIndex_None same_line_key)
    have set_splice: "set (splice1 p ?wo) \<subseteq> set ?wo" for p
      unfolding splice1_def by (auto dest: in_set_takeD in_set_dropD)
    have app: "ledger_ok (xs @ [mk_line m q (Some ?n)])"
      if "ledger_ok xs" "set xs \<subseteq> set ?wo" for xs q
      using that fresh by (auto simp: ledger_ok_def norm_notes_def)
    have spl: "ledger_ok (splice1 p ?wo)" for p
      using assms by (simp add: ledger_ok_def distinct_splice1)
    have [simp]: "norm_notes (Some x) = x" for x by (simp add: norm_notes_def)
    let ?res = "case (if ?n \<noteq> [] then findIndex (same_line (item_id m) []) ?wo else None) of
           Some p \<Rightarrow> (case findIndex (same_line (item_id m) ?n) (splice1 p ?wo) of
                Some c \<Rightarrow> add_quantity c (reqQuantity r) (splice1 p ?wo)
              | None \<Rightarrow> splice1 p ?wo @ [mk_line m (reqQuantity r) (Some ?n)])
         | None \<Rightarrow> ?wo @ [mk_line m (reqQuantity r) (Some ?n)]"
    have *: "workingOrder (order_step toLowerCase menu st r) = ?res"
      using \<open>find_menu toLowerCase menu (itemName r) = Some m\<close> None
      by (simp add: order_step_def Let_def split: option.splits)
    have "ledger_ok ?res"
    proof (cases "if ?n \<noteq> [] then findIndex (same_line (item_id m) []) ?wo else None")
      case None
      then show ?thesis using app [OF assms subset_refl] by simp
    next
      case (Some p)
      show ?thesis
      proof (cases "findIndex (same_line (item_id m) ?n) (splice1 p ?wo)")
        case None
        with Some show ?thesis using app [OF spl set_splice] by simp
      next
        case (Some c)
        with \<open>_ = Some p\<close> show ?thesis using spl [of p] by (simp add: ledger_ok_def)
      qed
    qed
    with * show ?thesis by simp
  qed
qed

lemma ledger_ok_order_loop_aux:
  "ledger_ok (workingOrder st) \<Longrightarrow> ledger_ok (workingOrder (foldl (order_step toLowerCase menu) st rs))"
  by (induction rs arbitrary: st) (simp_all add: ledger_ok_order_step)

lemma handleAdd_eq:
  "handleAddItemToOrder m qty notes xs =
     (let q = (case qty of None \<Rightarrow> Fin 1 | Some n \<Rightarrow> n)
      in case findIndex (same_line (item_id m) (norm_notes notes)) xs of
           Some e \<Rightarrow> add_quantity e q xs
         | None \<Rightarrow> xs @ [mk_line m q notes])"
  using mapIndex_update [where i = 0]
  by (auto simp: handleAddItemToOrder_def Let_def add_quantity_def
      split: option.splits dest!: findIndex_Some)

text \<open>
  Claim C2. If no two lines of a ledger share the pair (id, normalised notes), then no two
  lines of the ledger returned by the batch additions share it either, for every menu and
  every batch of requests; the single-item add operation keeps the invariant as well.
\<close>

theorem batch_additions_keep_lines_distinct:
  assumes "ledger_ok ledger"
  shows "ledger_ok (fst (handleMultiItemOrder toLowerCase menu sink orders ledger))
       \<and> ledger_ok (handleAddItemToOrder item qty notes ledger)"
proof
  show "ledger_ok (fst (handleMultiItemOrder toLowerCase menu sink orders ledger))"
    using assms by (simp add: handleMultiItemOrder_def Let_def order_loop_def ledger_ok_order_loop_aux)
  show "ledger_ok (handleAddItemToOrder item qty notes ledger)"
  proof (cases "findIndex (same_line (item_id item) (norm_notes notes)) ledger")
    case None
    then have "(item_id item, norm_notes notes) \<notin> set (map line_key ledger)"
      by (auto simp: findIndex_None same_line_key)
    with None assms show ?thesis
      by (simp add: handleAdd_eq ledger_ok_def)
  next
    case (Some e)
    with assms show ?thesis
      by (simp add: handleAdd_eq ledger_ok_def)
  qed
qed

lemma norm_notes_Some [simp]: "norm_notes (Some x) = x"
  by (simp add: norm_notes_def)

lemma order_loop_snoc:
  "order_loop toLowerCase menu ledger (rs @ [r]) = order_step toLowerCase menu (order_loop toLowerCase menu ledger rs) r"
  by (simp add: order_loop_def)

lemma removal_loop_snoc:
  "removal_loop toLowerCase menu ledger (rs @ [r]) = removal_step toLowerCase menu (removal_loop toLowerCase menu ledger rs) r"
  by (simp add: removal_loop_def)

lemma set_splice1: "set (splice1 p xs) \<subseteq> set xs"
  unfolding splice1_def by (auto dest: in_set_takeD in_set_dropD)

text \<open>
  Claim C3. Let \<open>W\<close> be the working ledger when a request with non-empty notes \<open>n\<close> for the
  menu item \<open>m\<close> is reached. If \<open>W\<close> has no line (id of \<open>m\<close>, \<open>n\<close>) but has a plain line of
  \<open>m\<close>, the first one at index \<open>p\<close>, the batch additions return \<open>W\<close> without that plain
  line, followed by one new line: it has the fields of \<open>m\<close>, the notes \<open>n\<close> and exactly the
  requested quantity, so the plain line's quantity is not carried over. (No line with
  the new notes can be left to merge into, so the line is always created.) When the
  pairs (id, notes) of \<open>W\<close> are distinct, no plain line of \<open>m\<close> is left.
\<close>

theorem customization_replaces_plain_line:
  assumes "find_menu toLowerCase menu (itemName r) = Some m"
    and "norm_notes (reqNotes r) = n" and "n \<noteq> []"
    and "W = fst (handleMultiItemOrder toLowerCase menu sink rs ledger)"
    and "findIndex (same_line (item_id m) n) W = None"
    and "findIndex (same_line (item_id m) []) W = Some p"
  shows "(\<exists>new. fst (handleMultiItemOrder toLowerCase menu sink (rs @ [r]) ledger)
                  = take p W @ drop (Suc p) W @ [new]
            \<and> quantity new = reqQuantity r
            \<and> customizationNotes new = Some n
            \<and> item_id new = item_id m \<and> name new = name m \<and> price new = price m)
         \<and> p < length W \<and> item_id (W ! p) = item_id m
         \<and> norm_notes (customizationNotes (W ! p)) = []
         \<and> (ledger_ok W \<longrightarrow>
              (\<forall>oi \<in> set (fst (handleMultiItemOrder toLowerCase menu sink (rs @ [r]) ledger)).
                 \<not> same_line (item_id m) [] oi))"
proof -
  let ?res = "fst (handleMultiItemOrder toLowerCase menu sink (rs @ [r]) ledger)"
  have W: "workingOrder (order_loop toLowerCase menu ledger rs) = W"
    using assms(4) by (simp add: handleMultiItemOrder_def Let_def)
  have "\<forall>x \<in> set W. \<not> same_line (item_id m) n x"
    using assms(5) by (simp add: findIndex_None)
  then have inner: "findIndex (same_line (item_id m) n) (splice1 p W) = None"
    using set_splice1 [of p W] by (auto simp: findIndex_None)
  have "workingOrder (order_step toLowerCase menu (order_loop toLowerCase menu ledger rs) r)
          = splice1 p W @ [mk_line m (reqQuantity r) (Some n)]"
    using assms(1,2,3,5,6) inner by (simp add: order_step_def Let_def W)
  then have res: "?res = take p W @ drop (Suc p) W @ [mk_line m (reqQuantity r) (Some n)]"
    by (simp add: handleMultiItemOrder_def Let_def order_loop_snoc splice1_def)
  have new: "quantity (mk_line m (reqQuantity r) (Some n)) = reqQuantity r"
    "customizationNotes (mk_line m (reqQuantity r) (Some n)) = Some n"
    "item_id (mk_line m (reqQuantity r) (Some n)) = item_id m"
    "name (mk_line m (reqQuantity r) (Some n)) = name m"
    "price (mk_line m (reqQuantity r) (Some n)) = price m"
    by (simp_all add: mk_line_def)
  note p = findIndex_Some [OF assms(6)]
  have gone: "\<not> same_line (item_id m) [] oi" if ok: "ledger_ok W" and oi: "oi \<in> set ?res" for oi
  proof
    assume plain: "same_line (item_id m) [] oi"
    then have key: "line_key oi = line_key (W ! p)"
      using p by (simp add: same_line_key)
    from plain assms(3) have "oi \<noteq> mk_line m (reqQuantity r) (Some n)"
      by (auto simp: same_line_def mk_line_def)
    with oi res have "oi \<in> set (take p W) \<or> oi \<in> set (drop (Suc p) W)"
      by auto
    then obtain j where j: "j < length W" "j \<noteq> p" "W ! j = oi"
    proof
      assume "oi \<in> set (take p W)"
      then obtain i where "i < length (take p W)" "take p W ! i = oi"
        by (auto simp: in_set_conv_nth)
      then have "i < length W" "i \<noteq> p" "W ! i = oi" by auto
      then show ?thesis by (rule that)
    next
      assume "oi \<in> set (drop (Suc p) W)"
      then obtain i where "i < length (drop (Suc p) W)" "drop (Suc p) W ! i = oi"
        by (auto simp: in_set_conv_nth)
      then have "Suc p + i < length W" "Suc p + i \<noteq> p" "W ! (Suc p + i) = oi" by auto
      then show ?thesis by (rule that)
    qed
    from ok have "distinct (map line_key W)" by (simp add: ledger_ok_def)
    with j p key show False
      by (auto simp: distinct_conv_nth)
  qed
  from res new p gone show ?thesis
    by (auto simp: same_line_def)
qed



section \<open>The order ledger: examples\<close>

lemmas ev = find_menu_def demo_menu_def burger_def fries_def js_def toLowerCase_ascii_def
  trim_def isWhiteSpace_def request_def mk_line_def same_line_def norm_notes_def
  handleMultiItemOrder_def handleMultiItemRemoval_def order_loop_def removal_loop_def
  order_step_def removal_step_def order_messages_def removal_messages_def add_quantity_def
  splice1_def Let_def line_key_def ledger_ok_def rupee_def

theorem batch_additions_keep_lines_distinct_witness:
  "ledger_ok [mk_line burger (Fin 3) None]
   \<and> ledger_ok (fst (handleMultiItemOrder toLowerCase_ascii demo_menu True
        [request ''burger'' (Fin 1) (Some ''no onion''), request ''Fries'' (Fin 2) None,
         request ''fries'' (Fin 1) None, request ''Burger'' (Fin 1) None]
        [mk_line burger (Fin 3) None]))
   \<and> ledger_ok (handleAddItemToOrder burger None (Some []) [mk_line burger (Fin 3) None])"
proof -
  have h: "ledger_ok [mk_line burger (Fin 3) None]"
    by (simp add: ledger_ok_def)
  from batch_additions_keep_lines_distinct [OF h] h show ?thesis
    by simp
qed

theorem customization_replaces_plain_line_witness:
  "(\<exists>new. fst (handleMultiItemOrder toLowerCase_ascii demo_menu True
                  ([] @ [request ''Burger'' (Fin 1) (Some ''no onion'')])
                  [mk_line burger (Fin 3) None]) = [new]
          \<and> quantity new = Fin 1
          \<and> customizationNotes new = Some (js ''no onion'')
          \<and> item_id new = js ''m1'' \<and> name new = js ''Burger''
          \<and> price new = PriceString (rupee # js ''100''))
   \<and> filter (same_line (js ''m1'') [])
        (fst (handleMultiItemOrder toLowerCase_ascii demo_menu True
                ([] @ [request ''Burger'' (Fin 1) (Some ''no onion'')])
                [mk_line burger (Fin 3) None])) = []"
proof -
  let ?r = "request ''Burger'' (Fin 1) (Some ''no onion'')"
  let ?W = "[mk_line burger (Fin 3) None]"
  have 1: "find_menu toLowerCase_ascii demo_menu (itemName ?r) = Some burger" by (simp add: ev)
  have 2: "norm_notes (reqNotes ?r) = js ''no onion''" by (simp add: ev)
  have 3: "js ''no onion'' \<noteq> []" by (simp add: ev)
  have 4: "?W = fst (handleMultiItemOrder toLowerCase_ascii demo_menu True [] ?W)" by (simp add: ev)
  have 5: "findIndex (same_line (item_id burger) (js ''no onion'')) ?W = None" by (simp add: ev)
  have 6: "findIndex (same_line (item_id burger) []) ?W = Some 0" by (simp add: ev)
  have 7: "ledger_ok ?W" by (simp add: ledger_ok_def)
  have 8: "item_id burger = js ''m1''" by (simp add: burger_def)
  note main = customization_replaces_plain_line [OF 1 2 3 4 5 6]
  from main [THEN conjunct1] have a: "\<exists>new. fst (handleMultiItemOrder toLowerCase_ascii demo_menu True
                  ([] @ [?r]) ?W) = [new]
          \<and> quantity new = Fin 1
          \<and> customizationNotes new = Some (js ''no onion'')
          \<and> item_id new = js ''m1'' \<and> name new = js ''Burger''
          \<and> price new = PriceString (rupee # js ''100'')"
    by (simp add: request_def burger_def)
  from main 7 have "\<forall>oi \<in> set (fst (handleMultiItemOrder toLowerCase_ascii demo_menu True
                  ([] @ [?r]) ?W)). \<not> same_line (item_id burger) [] oi"
    by blast
  then have b: "filter (same_line (js ''m1'') [])
        (fst (handleMultiItemOrder toLowerCase_ascii demo_menu True ([] @ [?r]) ?W)) = []"
    unfolding 8 by (simp only: filter_empty_conv)
  from a b show ?thesis ..
qed


section \<open>Doubles: facts\<close>

lemma round_half_even_error: "\<bar>of_int (round_half_even y) - y\<bar> \<le> 1 / 2"
proof -
  define n where "n = \<lfloor>y\<rfloor>"
  define r where "r = y - of_int n"
  have r: "0 \<le> r" "r < 1"
    unfolding r_def n_def by linarith+
  have y: "y = of_int n + r"
    unfolding r_def by simp
  have "round_half_even y =
      (if r < 1 / 2 then n else if 1 / 2 < r then n + 1 else if even n then n else n + 1)"
    unfolding round_half_even_def Let_def n_def r_def ..
  then consider "round_half_even y = n" "r \<le> 1 / 2" | "round_half_even y = n + 1" "1 / 2 \<le> r"
    by (cases "r < 1 / 2"; cases "1 / 2 < r"; cases "even n") auto
  then show ?thesis
  proof cases
    case 1
    then show ?thesis using r y by simp
  next
    case 2
    then show ?thesis using r y by simp
  qed
qed

lemma round_half_even_nonneg: "0 \<le> y \<Longrightarrow> 0 \<le> round_half_even y"
  unfolding round_half_even_def Let_def by (auto simp: add_nonneg_nonneg)

lemma round_half_even_of_int: "round_half_even (of_int n) = n"
  by (simp add: round_half_even_def)

lemma round_half_even_ge: "of_int N \<le> y \<Longrightarrow> N \<le> round_half_even y"
  unfolding round_half_even_def Let_def by (auto simp: le_floor_iff) linarith+

lemma round_half_even_le: "y \<le> of_int N \<Longrightarrow> round_half_even y \<le> N"
proof -
  assume y: "y \<le> of_int N"
  show ?thesis
  proof (cases "y = of_int N")
    case True
    then show ?thesis by (simp add: round_half_even_of_int)
  next
    case False
    with y have "y < of_int N" by simp
    then have "\<lfloor>y\<rfloor> < N" by (simp add: floor_less_iff)
    then show ?thesis
      unfolding round_half_even_def Let_def by auto
  qed
qed

lemma two_powi_nat: "0 \<le> k \<Longrightarrow> (2::rat) powi k = 2 ^ nat k"
  by (simp add: power_int_def)

lemma two_powi_pos: "0 < (2::rat) powi k"
  by simp

lemma two_powi_less: "(2::rat) powi a < 2 powi b \<longleftrightarrow> a < b"
proof
  assume "(2::rat) powi a < 2 powi b"
  show "a < b"
  proof (rule ccontr)
    assume "\<not> a < b"
    then have "(2::rat) powi b \<le> 2 powi a"
      by (intro power_int_increasing) simp_all
    with \<open>2 powi a < 2 powi b\<close> show False by simp
  qed
next
  assume "a < b"
  then show "(2::rat) powi a < 2 powi b"
    by (intro power_int_strict_increasing) simp_all
qed

lemma two_powi_le: "(2::rat) powi a \<le> 2 powi b \<longleftrightarrow> a \<le> b"
  using two_powi_less [of b a] by (auto simp: not_less [symmetric])

lemma two_powi_add: "(2::rat) powi (a + b) = 2 powi a * 2 powi b"
  by (simp add: power_int_add)

lemma two_powi_diff: "(2::rat) powi (a - b) = 2 powi a / 2 powi b"
  by (simp add: power_int_diff)

lemma floor_log2_bounds:
  assumes "0 < x"
  shows "2 powi floor_log2 x \<le> x \<and> x < 2 powi (floor_log2 x + 1)"
proof (cases "1 \<le> x")
  case True
  define b where "b = bitlen \<lfloor>x\<rfloor>"
  have fpos: "0 < \<lfloor>x\<rfloor>" using True by linarith
  note bb = bitlen_bounds [OF fpos, folded b_def]
  have "b \<noteq> 0" using fpos by (simp add: b_def bitlen_eq_zero_iff)
  moreover have "0 \<le> b" unfolding b_def by (rule bitlen_nonneg)
  ultimately have b1: "1 \<le> b" by simp
  have e: "floor_log2 x = b - 1" using True by (simp add: floor_log2_def b_def)
  have "(of_int (2 ^ nat (b - 1)) :: rat) \<le> of_int \<lfloor>x\<rfloor>"
    using bb by (simp only: of_int_le_iff)
  then have "(2::rat) ^ nat (b - 1) \<le> of_int \<lfloor>x\<rfloor>" by simp
  also have "\<dots> \<le> x" by linarith
  finally have lo: "(2::rat) powi (b - 1) \<le> x"
    using b1 by (simp add: two_powi_nat)
  from bb have "\<lfloor>x\<rfloor> + 1 \<le> 2 ^ nat b" by simp
  then have "(of_int (\<lfloor>x\<rfloor> + 1) :: rat) \<le> of_int (2 ^ nat b)"
    by (simp only: of_int_le_iff)
  then have "of_int \<lfloor>x\<rfloor> + 1 \<le> (2::rat) ^ nat b" by simp
  moreover have "x < of_int \<lfloor>x\<rfloor> + 1" by linarith
  ultimately have "x < (2::rat) ^ nat b" by linarith
  then have hi: "x < (2::rat) powi b"
    using b1 by (simp add: two_powi_nat)
  from lo hi show ?thesis by (simp add: e)
next
  case False
  define y where "y = 1 / x"
  define c where "c = \<lceil>y\<rceil>"
  define b where "b = bitlen (c - 1)"
  from False assms have y1: "1 < y" by (simp add: y_def)
  then have c2: "2 \<le> c" unfolding c_def by linarith
  then have cpos: "0 < c - 1" by simp
  note bb = bitlen_bounds [OF cpos, folded b_def]
  have "b \<noteq> 0" using cpos by (simp add: b_def bitlen_eq_zero_iff)
  moreover have "0 \<le> b" unfolding b_def by (rule bitlen_nonneg)
  ultimately have b1: "1 \<le> b" by simp
  have e: "floor_log2 x = - b" using False by (simp add: floor_log2_def b_def c_def y_def)
  have cy: "of_int c - 1 < y" "y \<le> of_int c" unfolding c_def by linarith+
  have "(of_int (2 ^ nat (b - 1)) :: rat) \<le> of_int (c - 1)"
    using bb by (simp only: of_int_le_iff)
  then have "(2::rat) ^ nat (b - 1) \<le> of_int c - 1" by simp
  with cy have "(2::rat) ^ nat (b - 1) < y" by linarith
  then have ylo: "(2::rat) powi (b - 1) < y"
    using b1 by (simp add: two_powi_nat)
  from bb have "c \<le> 2 ^ nat b" by simp
  then have "(of_int c :: rat) \<le> of_int (2 ^ nat b)"
    by (simp only: of_int_le_iff)
  then have "(of_int c :: rat) \<le> 2 ^ nat b" by simp
  with cy have "y \<le> (2::rat) ^ nat b" by linarith
  then have yhi: "y \<le> (2::rat) powi b"
    using b1 by (simp add: two_powi_nat)
  have x: "x = 1 / y" using assms by (simp add: y_def)
  have ypos: "0 < y" using y1 by simp
  have "1 / 2 powi b \<le> 1 / y"
    using yhi ypos by (simp add: frac_le)
  then have lo: "2 powi (- b) \<le> x"
    by (simp add: x power_int_minus_divide)
  have "1 / y < 1 / 2 powi (b - 1)"
    using ylo ypos by (simp add: frac_less2)
  then have hi: "x < 2 powi (- b + 1)"
    by (simp add: x power_int_minus_divide [symmetric])
  from lo hi show ?thesis by (simp add: e)
qed

lemma floor_log2_less:
  assumes "0 < x" and "x < 2 powi k"
  shows "floor_log2 x < k"
proof -
  from floor_log2_bounds [OF assms(1)] assms(2) have "(2::rat) powi floor_log2 x < 2 powi k"
    by simp
  then show ?thesis by (simp only: two_powi_less)
qed

lemma floor_log2_ge:
  assumes "0 < x" and "2 powi k \<le> x"
  shows "k \<le> floor_log2 x"
proof -
  from floor_log2_bounds [OF assms(1)] assms(2) have "(2::rat) powi k < 2 powi (floor_log2 x + 1)"
    by simp
  then have "k < floor_log2 x + 1" by (simp only: two_powi_less)
  then show ?thesis by simp
qed

lemma fl_unfold:
  assumes "x \<noteq> 0" and "floor_log2 \<bar>x\<bar> \<le> 1023"
  shows "fl x =
     (if floor_log2 \<bar>x\<bar> = 1023
         \<and> round_half_even (\<bar>x\<bar> / 2 powi (max (floor_log2 \<bar>x\<bar>) (- 1022) - 52)) = 2 ^ 53
      then (if 0 < x then PosInf else NegInf)
      else Fin (sgn x
             * of_int (round_half_even (\<bar>x\<bar> / 2 powi (max (floor_log2 \<bar>x\<bar>) (- 1022) - 52)))
             * 2 powi (max (floor_log2 \<bar>x\<bar>) (- 1022) - 52)))"
  using assms by (simp add: fl_def Let_def)

lemma fl_exact:
  assumes x: "x = of_int m * 2 powi k"
    and m: "\<bar>m\<bar> < 2 ^ 53" and k: "- 1074 \<le> k" and big: "\<bar>x\<bar> < 2 powi 1024"
  shows "fl x = Fin x"
proof (cases "m = 0")
  case True
  then show ?thesis by (simp add: x fl_def)
next
  case False
  define e where "e = floor_log2 \<bar>x\<bar>"
  define j where "j = max e (- 1022) - 52"
  define u where "u = (2::rat) powi j"
  have ax: "\<bar>x\<bar> = of_int \<bar>m\<bar> * 2 powi k" by (simp add: x abs_mult)
  have xpos: "0 < \<bar>x\<bar>" using False by (simp add: x)
  have "(of_int \<bar>m\<bar> :: rat) < of_int (2 ^ 53)"
    using m by (simp only: of_int_less_iff)
  then have "(of_int \<bar>m\<bar> :: rat) < 2 powi 53" by simp
  then have "of_int \<bar>m\<bar> * 2 powi k < (2::rat) powi 53 * 2 powi k"
    by (simp only: mult_less_cancel_right_pos two_powi_pos)
  then have "\<bar>x\<bar> < 2 powi (53 + k)"
    by (simp only: ax two_powi_add)
  then have ek: "e < 53 + k"
    unfolding e_def using xpos by (intro floor_log2_less)
  have e1023: "e \<le> 1023"
    using floor_log2_less [OF xpos big] by (simp add: e_def)
  have jk: "j \<le> k" using ek k by (simp add: j_def)
  define N where "N = \<bar>m\<bar> * 2 ^ nat (k - j)"
  have upos: "0 < u" by (simp add: u_def)
  have "(2::rat) powi k / 2 powi j = 2 powi (k - j)" by (simp only: two_powi_diff)
  also have "\<dots> = 2 ^ nat (k - j)" using jk by (simp add: two_powi_nat)
  finally have q: "(2::rat) powi k / 2 powi j = 2 ^ nat (k - j)" .
  have "\<bar>x\<bar> / u = of_int \<bar>m\<bar> * (2 powi k / 2 powi j)"
    by (simp add: ax u_def)
  then have "\<bar>x\<bar> / u = of_int \<bar>m\<bar> * 2 ^ nat (k - j)"
    by (simp only: q)
  then have div: "\<bar>x\<bar> / u = of_int N" by (simp add: N_def)
  have n: "round_half_even (\<bar>x\<bar> / u) = N"
    by (simp only: div round_half_even_of_int)
  have Nu: "of_int N * u = \<bar>x\<bar>"
    using div upos by (simp add: field_simps)
  have N53: "N \<noteq> 2 ^ 53" if "e = 1023"
  proof
    assume "N = 2 ^ 53"
    with Nu have "\<bar>x\<bar> = 2 powi 53 * u" by simp
    also have "u = 2 powi 971" using that by (simp add: u_def j_def)
    also have "(2::rat) powi 53 * 2 powi 971 = 2 powi (53 + 971)"
      by (simp only: two_powi_add)
    finally show False using big by simp
  qed
  have "fl x = (if e = 1023 \<and> round_half_even (\<bar>x\<bar> / u) = 2 ^ 53
                then (if 0 < x then PosInf else NegInf)
                else Fin (sgn x * of_int (round_half_even (\<bar>x\<bar> / u)) * u))"
    unfolding e_def j_def u_def
    using xpos e1023 by (intro fl_unfold) (simp_all add: e_def)
  then have "fl x = Fin (sgn x * of_int N * u)"
    using N53 n by auto
  also have "sgn x * of_int N * u = sgn x * \<bar>x\<bar>"
    using Nu by (simp add: mult.assoc)
  also have "\<dots> = x" by (simp add: sgn_mult_abs)
  finally show ?thesis .
qed

lemma fl_int:
  assumes "\<bar>n\<bar> \<le> 2 ^ 53"
  shows "fl (of_int n) = Fin (of_int n)"
proof -
  have le: "(2::rat) powi 53 < 2 powi 1024"
    by (simp only: two_powi_less)
  have "(of_int \<bar>n\<bar> :: rat) \<le> of_int (2 ^ 53)"
    using assms by (simp only: of_int_le_iff)
  then have "(of_int \<bar>n\<bar> :: rat) \<le> 2 powi 53" by simp
  with le have big: "\<bar>of_int n :: rat\<bar> < 2 powi 1024" by simp
  show ?thesis
  proof (cases "\<bar>n\<bar> < 2 ^ 53")
    case True
    show ?thesis
      by (rule fl_exact [where m = n and k = 0, OF _ True _ big]) simp_all
  next
    case False
    with assms have "\<bar>n\<bar> = 2 ^ 53" by simp
    then have n: "n = sgn n * 2 ^ 52 * 2" by (simp add: abs_if sgn_if split: if_splits)
    have "(of_int n :: rat) = of_int (sgn n * 2 ^ 52) * 2 powi 1"
      by (subst n) simp
    moreover have "\<bar>sgn n * 2 ^ 52\<bar> < (2::int) ^ 53"
      by (simp add: abs_mult sgn_if)
    ultimately show ?thesis
      using big by (intro fl_exact [where m = "sgn n * 2 ^ 52" and k = 1]) simp_all
  qed
qed

lemma fl_minus:
  "fl (- x) = (case fl x of Fin y \<Rightarrow> Fin (- y) | PosInf \<Rightarrow> NegInf | NegInf \<Rightarrow> PosInf
               | NaN \<Rightarrow> NaN)"
proof (cases "x = 0")
  case True
  then show ?thesis by (simp add: fl_def)
next
  case False
  define e where "e = floor_log2 \<bar>x\<bar>"
  define u where "u = (2::rat) powi (max e (- 1022) - 52)"
  define n where "n = round_half_even (\<bar>x\<bar> / u)"
  have A: "fl x = (if 1023 < e then (if 0 < x then PosInf else NegInf)
                   else if e = 1023 \<and> n = 2 ^ 53 then (if 0 < x then PosInf else NegInf)
                   else Fin (sgn x * of_int n * u))"
    unfolding fl_def Let_def e_def u_def n_def using False by (simp only: if_False)
  have ab: "\<bar>- x\<bar> = \<bar>x\<bar>" "- x = 0 \<longleftrightarrow> x = 0" "0 < - x \<longleftrightarrow> x < 0" "sgn (- x) = - sgn x"
    by simp_all
  have B: "fl (- x) = (if 1023 < e then (if x < 0 then PosInf else NegInf)
                   else if e = 1023 \<and> n = 2 ^ 53 then (if x < 0 then PosInf else NegInf)
                   else Fin (- sgn x * of_int n * u))"
    unfolding fl_def Let_def ab e_def u_def n_def using False by (simp only: if_False)
  from False show ?thesis
    unfolding A B by (cases "0 < x") auto
qed

lemma fl_idem:
  assumes "fl x = Fin y"
  shows "fl y = Fin y"
proof (cases "x = 0")
  case True
  with assms show ?thesis by (simp add: fl_def)
next
  case False
  define e where "e = floor_log2 \<bar>x\<bar>"
  define j where "j = max e (- 1022) - 52"
  define u where "u = (2::rat) powi j"
  define n where "n = round_half_even (\<bar>x\<bar> / u)"
  have xpos: "0 < \<bar>x\<bar>" using False by simp
  have upos: "0 < u" by (simp add: u_def)
  have e1023: "e \<le> 1023"
    using assms False unfolding e_def by (auto simp: fl_def Let_def split: if_splits)
  have "fl x = (if e = 1023 \<and> n = 2 ^ 53 then (if 0 < x then PosInf else NegInf)
                else Fin (sgn x * of_int n * u))"
    unfolding e_def j_def u_def n_def
    using False e1023 by (intro fl_unfold) (simp_all add: e_def)
  with assms have y: "y = sgn x * of_int n * u" and top: "\<not> (e = 1023 \<and> n = 2 ^ 53)"
    by (auto split: if_splits)
  have n0: "0 \<le> n"
    unfolding n_def using upos by (intro round_half_even_nonneg) simp
  have "\<bar>x\<bar> < 2 powi (e + 1)"
    unfolding e_def using floor_log2_bounds [OF xpos] by simp
  also have "\<dots> \<le> 2 powi (j + 53)"
    by (simp only: two_powi_le) (simp add: j_def)
  also have "\<dots> = 2 powi 53 * u"
    by (simp only: two_powi_add u_def mult.commute)
  finally have "\<bar>x\<bar> / u < 2 powi 53"
    using upos by (simp add: field_simps)
  then have "\<bar>x\<bar> / u \<le> of_int (2 ^ 53)" by simp
  then have n53: "n \<le> 2 ^ 53"
    unfolding n_def by (rule round_half_even_le)
  define s :: int where "s = (if 0 < x then 1 else - 1)"
  have sx: "sgn x = of_int s" using False by (simp add: s_def sgn_if)
  have abs_y: "\<bar>y\<bar> = of_int n * u"
    using n0 upos by (simp add: y sx abs_mult s_def)
  have j1074: "- 1074 \<le> j" by (simp add: j_def)
  show ?thesis
  proof (cases "n = 2 ^ 53")
    case False
    with n53 have lt: "n < 2 ^ 53" by simp
    then have "(of_int n :: rat) < of_int (2 ^ 53)" by (simp only: of_int_less_iff)
    then have "(of_int n :: rat) < 2 powi 53" by simp
    then have "of_int n * u < 2 powi 53 * u"
      using upos by (simp only: mult_less_cancel_right_pos)
    also have "\<dots> = 2 powi (53 + j)" by (simp only: two_powi_add u_def)
    also have "\<dots> \<le> 2 powi 1024"
      using e1023 by (simp only: two_powi_le) (simp add: j_def)
    finally have big: "\<bar>y\<bar> < 2 powi 1024" by (simp only: abs_y)
    have "y = of_int (s * n) * 2 powi j" by (simp add: y sx u_def)
    moreover have "\<bar>s * n\<bar> < 2 ^ 53" using lt n0 by (simp add: abs_mult s_def)
    ultimately show ?thesis using j1074 big by (rule fl_exact)
  next
    case True
    with top have e1022: "e \<le> 1022" using e1023 by simp
    have "y = of_int s * (2 powi 53 * 2 powi j)" by (simp add: y sx u_def True)
    also have "(2::rat) powi 53 * 2 powi j = 2 powi (j + 53)"
      by (simp only: two_powi_add mult.commute)
    finally have y2: "y = of_int s * 2 powi (j + 53)" .
    have "\<bar>y\<bar> = 2 powi (j + 53)" by (simp add: y2 abs_mult s_def)
    also have "\<dots> < 2 powi 1024"
      using e1022 by (simp only: two_powi_less) (simp add: j_def)
    finally have big: "\<bar>y\<bar> < 2 powi 1024" .
    have "\<bar>s\<bar> < 2 ^ 53" by (simp add: s_def)
    moreover have "- 1074 \<le> j + 53" using j1074 by simp
    ultimately show ?thesis using y2 big by (intro fl_exact [where m = s and k = "j + 53"])
  qed
qed

lemma fl_error_nonneg:
  assumes "0 \<le> x" and "x < 2 ^ 46"
  shows "\<exists>y. fl x = Fin y \<and> 0 \<le> y \<and> \<bar>y - x\<bar> \<le> 1 / 2 ^ 8"
proof (cases "x = 0")
  case True
  then show ?thesis by (simp add: fl_def)
next
  case False
  with assms have pos: "0 < x" by simp
  define e where "e = floor_log2 \<bar>x\<bar>"
  define u where "u = (2::rat) powi (max e (- 1022) - 52)"
  define n where "n = round_half_even (\<bar>x\<bar> / u)"
  have "\<bar>x\<bar> < 2 powi 46" using assms by simp
  then have "e < 46"
    unfolding e_def using pos by (intro floor_log2_less) simp_all
  then have e: "e \<le> 45" by simp
  have upos: "0 < u" by (simp add: u_def)
  have "max e (- 1022) - 52 \<le> - 7"
    using e by simp
  then have "u \<le> 2 powi (- 7)"
    unfolding u_def by (simp only: two_powi_le)
  then have u: "u \<le> 1 / 2 ^ 7"
    by (simp add: power_int_minus divide_simps)
  have "fl x = (if e = 1023 \<and> n = 2 ^ 53 then (if 0 < x then PosInf else NegInf)
                else Fin (sgn x * of_int n * u))"
    unfolding e_def u_def n_def
    using False e by (intro fl_unfold) (simp_all add: e_def)
  with e pos have flx: "fl x = Fin (of_int n * u)" by simp
  have "\<bar>of_int n - \<bar>x\<bar> / u\<bar> \<le> 1 / 2"
    unfolding n_def by (rule round_half_even_error)
  then have "\<bar>of_int n - \<bar>x\<bar> / u\<bar> * u \<le> 1 / 2 * u"
    using upos by (simp only: mult_le_cancel_right_pos)
  moreover have "\<bar>of_int n - \<bar>x\<bar> / u\<bar> * u = \<bar>of_int n * u - \<bar>x\<bar>\<bar>"
  proof -
    have "\<bar>of_int n - \<bar>x\<bar> / u\<bar> * u = \<bar>(of_int n - \<bar>x\<bar> / u) * u\<bar>"
      using upos by (simp add: abs_mult)
    also have "(of_int n - \<bar>x\<bar> / u) * u = of_int n * u - \<bar>x\<bar>"
      using upos by (simp add: left_diff_distrib)
    finally show ?thesis .
  qed
  ultimately have "\<bar>of_int n * u - \<bar>x\<bar>\<bar> \<le> 1 / 2 * u"
    by simp
  also have "\<dots> \<le> 1 / 2 * (1 / 2 ^ 7)"
    using u by simp
  finally have err: "\<bar>of_int n * u - x\<bar> \<le> 1 / 2 ^ 8"
    using pos by simp
  have "0 \<le> n"
    unfolding n_def using upos pos by (intro round_half_even_nonneg) simp
  then have "0 \<le> of_int n * u"
    using upos by simp
  with flx err show ?thesis by blast
qed

lemma fl_error:
  assumes "\<bar>x\<bar> < 2 ^ 46"
  shows "\<exists>y. fl x = Fin y \<and> \<bar>y - x\<bar> \<le> 1 / 2 ^ 8 \<and> (0 \<le> x \<longrightarrow> 0 \<le> y) \<and> (x \<le> 0 \<longrightarrow> y \<le> 0)"
proof (cases "0 \<le> x")
  case True
  with assms fl_error_nonneg [of x] obtain y where
    y: "fl x = Fin y" "0 \<le> y" "\<bar>y - x\<bar> \<le> 1 / 2 ^ 8"
    by auto
  have "y \<le> 0" if "x \<le> 0"
  proof -
    from that True have "x = 0" by simp
    with y(1) show ?thesis by (simp add: fl_def)
  qed
  with y show ?thesis by blast
next
  case False
  with assms fl_error_nonneg [of "- x"] obtain y where
    y: "fl (- x) = Fin y" "0 \<le> y" "\<bar>y - (- x)\<bar> \<le> 1 / 2 ^ 8"
    by auto
  from fl_minus [of "- x"] y(1) have "fl x = Fin (- y)" by simp
  moreover have "\<bar>- y - x\<bar> = \<bar>y - (- x)\<bar>" by (simp add: abs_minus_commute)
  ultimately show ?thesis using y False by auto
qed

lemma fl_ge_one:
  assumes "1 \<le> x"
  shows "js_ge (fl x) (Fin 1)"
proof -
  define e where "e = floor_log2 \<bar>x\<bar>"
  define u where "u = (2::rat) powi (max e (- 1022) - 52)"
  define n where "n = round_half_even (\<bar>x\<bar> / u)"
  have pos: "0 < x" "x \<noteq> 0" "\<bar>x\<bar> = x" using assms by simp_all
  have "(2::rat) powi 0 \<le> \<bar>x\<bar>" using assms by simp
  then have e0: "0 \<le> e"
    unfolding e_def using pos by (intro floor_log2_ge) simp_all
  show ?thesis
  proof (cases "1023 < e")
    case True
    then have "fl x = PosInf"
      using pos by (simp add: fl_def Let_def e_def)
    then show ?thesis by simp
  next
    case False
    then have e1023: "e \<le> 1023" by simp
    have fl: "fl x = (if e = 1023 \<and> n = 2 ^ 53 then (if 0 < x then PosInf else NegInf)
                  else Fin (sgn x * of_int n * u))"
      unfolding e_def u_def n_def
      using pos(2) e1023 by (intro fl_unfold) (simp_all add: e_def)
    have u: "u = 2 powi (e - 52)" using e0 by (simp add: u_def)
    have upos: "0 < u" by (simp add: u_def)
    have "2 powi e \<le> \<bar>x\<bar>"
      unfolding e_def using floor_log2_bounds [of "\<bar>x\<bar>"] pos by simp
    then have "2 powi e / u \<le> \<bar>x\<bar> / u"
      using upos by (simp add: divide_right_mono)
    moreover have "2 powi e / u = 2 powi 52"
      unfolding u by (simp only: two_powi_diff [symmetric]) simp
    ultimately have "of_int (2 ^ 52) \<le> \<bar>x\<bar> / u" by simp
    then have "2 ^ 52 \<le> n"
      unfolding n_def by (rule round_half_even_ge)
    then have "(of_int (2 ^ 52) :: rat) \<le> of_int n"
      by (simp only: of_int_le_iff)
    then have "(2::rat) powi 52 * u \<le> of_int n * u"
      using upos by simp
    moreover have "(2::rat) powi 52 * u = 2 powi e"
      unfolding u by (simp only: two_powi_add [symmetric]) simp
    moreover have "(1::rat) \<le> 2 powi e"
      using e0 two_powi_le [of 0 e] by simp
    ultimately have "1 \<le> of_int n * u" by simp
    with fl pos show ?thesis by simp
  qed
qed

lemma double_integer:
  assumes "fl x = Fin x" and "2 ^ 52 \<le> \<bar>x\<bar>"
  shows "x = of_int \<lfloor>x\<rfloor>"
proof -
  define e where "e = floor_log2 \<bar>x\<bar>"
  define u where "u = (2::rat) powi (max e (- 1022) - 52)"
  define n where "n = round_half_even (\<bar>x\<bar> / u)"
  have pos: "0 < \<bar>x\<bar>" "x \<noteq> 0" using assms(2) by auto
  have "(2::rat) powi 52 \<le> \<bar>x\<bar>" using assms(2) by simp
  then have e52: "52 \<le> e"
    unfolding e_def using pos by (intro floor_log2_ge) simp_all
  have e1023: "e \<le> 1023"
    using assms(1) pos(2) unfolding e_def by (auto simp: fl_def Let_def split: if_splits)
  have "fl x = (if e = 1023 \<and> n = 2 ^ 53 then (if 0 < x then PosInf else NegInf)
                else Fin (sgn x * of_int n * u))"
    unfolding e_def u_def n_def
    using pos(2) e1023 by (intro fl_unfold) (simp_all add: e_def)
  with assms(1) have x: "x = sgn x * of_int n * u"
    by (auto split: if_splits)
  have "u = 2 ^ nat (e - 52)"
    using e52 by (simp add: u_def two_powi_nat)
  then have "u = of_int (2 ^ nat (e - 52))" by simp
  moreover have "sgn x = of_int (if 0 < x then 1 else - 1)"
    using pos(2) by (simp add: sgn_if)
  ultimately have "x = of_int ((if 0 < x then 1 else - 1) * n * 2 ^ nat (e - 52))"
    using x by (metis (no_types) of_int_mult)
  then show ?thesis
    by (metis floor_of_int)
qed

section \<open>Whole quantities: facts\<close>

lemma positive_integerE:
  assumes "positive_integer q"
  obtains A where "q = Fin (of_int A)" and "1 \<le> A" and "int_of q = A"
proof -
  from assms obtain r where r: "q = Fin r" "1 \<le> r" "r = of_int \<lfloor>r\<rfloor>"
    by (auto simp: positive_integer_def split: jsnum.splits)
  from r(2) have "1 \<le> \<lfloor>r\<rfloor>" by simp
  moreover from r have "q = Fin (of_int \<lfloor>r\<rfloor>)" by simp
  moreover from r have "int_of q = \<lfloor>r\<rfloor>" by (simp add: int_of_def)
  ultimately show ?thesis using that by blast
qed

lemma positive_integer_Fin: "1 \<le> A \<Longrightarrow> positive_integer (Fin (of_int A))"
  by (simp add: positive_integer_def)

lemma int_of_Fin: "int_of (Fin (of_int A)) = A"
  by (simp add: int_of_def)

lemma js_add_whole:
  assumes "\<bar>A + B\<bar> \<le> 2 ^ 53"
  shows "js_add (Fin (of_int A)) (Fin (of_int B)) = Fin (of_int (A + B))"
  using fl_int [OF assms] by simp

lemma js_sub_whole:
  assumes "\<bar>A - B\<bar> \<le> 2 ^ 53"
  shows "js_sub (Fin (of_int A)) (Fin (of_int B)) = Fin (of_int (A - B))"
  using fl_int [OF assms] by simp


text \<open>
  Claim C5. Let \<open>W\<close> be the working ledger when a removal request that resolves to the menu
  item \<open>m\<close> is reached, and let \<open>e\<close> be the index of the line with the id of \<open>m\<close> and the
  request's normalised notes. If the requested quantity is at least the line's quantity
  (compared as numbers) the line is deleted; otherwise the line stays with the
  difference of the two doubles as its quantity. When both are positive whole numbers
  and the line's quantity is at most \<open>2^53\<close>, that difference is exactly the line's
  quantity less the requested one. When the quantities of \<open>W\<close> and of the request are
  positive whole numbers of any size, every line that is kept has a quantity of at least 1.
\<close>

theorem removal_deletes_or_decrements:
  assumes "find_menu toLowerCase menu (itemName r) = Some m"
    and "W = fst (handleMultiItemRemoval toLowerCase menu sink rs ledger)"
    and "findIndex (same_line (item_id m) (norm_notes (reqNotes r))) W = Some e"
  shows "fst (handleMultiItemRemoval toLowerCase menu sink (rs @ [r]) ledger)
           = (if js_ge (reqQuantity r) (quantity (W ! e)) then take e W @ drop (Suc e) W
              else W[e := (W ! e)\<lparr>quantity := js_sub (quantity (W ! e)) (reqQuantity r)\<rparr>])
         \<and> (positive_integer (quantity (W ! e)) \<and> positive_integer (reqQuantity r)
              \<and> int_of (quantity (W ! e)) \<le> 2 ^ 53
              \<and> \<not> js_ge (reqQuantity r) (quantity (W ! e)) \<longrightarrow>
              js_sub (quantity (W ! e)) (reqQuantity r)
                = Fin (of_int (int_of (quantity (W ! e)) - int_of (reqQuantity r)))
              \<and> 1 \<le> int_of (quantity (W ! e)) - int_of (reqQuantity r))
         \<and> ((\<forall>oi \<in> set W. positive_integer (quantity oi)) \<and> positive_integer (reqQuantity r) \<longrightarrow>
              (\<forall>oi \<in> set (fst (handleMultiItemRemoval toLowerCase menu sink (rs @ [r]) ledger)).
                 js_ge (quantity oi) (Fin 1)))"
proof -
  have W: "workingOrder (removal_loop toLowerCase menu ledger rs) = W"
    using assms(2) by (simp add: handleMultiItemRemoval_def Let_def)
  have e: "e < length W"
    using findIndex_Some [OF assms(3)] by simp
  let ?a = "quantity (W ! e)" and ?b = "reqQuantity r"
  let ?res = "if js_ge ?b ?a then take e W @ drop (Suc e) W
              else W[e := (W ! e)\<lparr>quantity := js_sub ?a ?b\<rparr>]"
  have res: "fst (handleMultiItemRemoval toLowerCase menu sink (rs @ [r]) ledger) = ?res"
    using assms(1,3) e mapIndex_update [where i = 0 and e = e and xs = W]
      filterIndex_splice [where i = 0 and e = e and xs = W]
    by (simp add: handleMultiItemRemoval_def Let_def removal_loop_snoc removal_step_def W
        splice1_def)
  have exact: "js_sub ?a ?b = Fin (of_int (int_of ?a - int_of ?b)) \<and> 1 \<le> int_of ?a - int_of ?b"
    if a: "positive_integer ?a" and b: "positive_integer ?b"
      and le: "int_of ?a \<le> 2 ^ 53" and less: "\<not> js_ge ?b ?a"
  proof -
    from a obtain A where A: "?a = Fin (of_int A)" "1 \<le> A" "int_of ?a = A"
      by (rule positive_integerE)
    from b obtain B where B: "?b = Fin (of_int B)" "1 \<le> B" "int_of ?b = B"
      by (rule positive_integerE)
    from less have BA: "B < A" by (simp add: A B)
    with le A(3) B(2) have "\<bar>A - B\<bar> \<le> 2 ^ 53" by simp
    from js_sub_whole [OF this] BA show ?thesis
      by (simp only: A(1) B(1) int_of_Fin) simp
  qed
  have kept: "js_ge (quantity oi) (Fin 1)"
    if pos: "\<forall>oi \<in> set W. positive_integer (quantity oi)" and b: "positive_integer ?b"
      and oi: "oi \<in> set ?res" for oi
  proof -
    have old: "js_ge (quantity x) (Fin 1)" if "x \<in> set W" for x
    proof -
      from pos that have "positive_integer (quantity x)" by blast
      then obtain A where "quantity x = Fin (of_int A)" "1 \<le> A"
        by (rule positive_integerE)
      then show ?thesis by simp
    qed
    show ?thesis
    proof (cases "js_ge ?b ?a")
      case True
      with oi have "oi \<in> set W"
        by (auto dest: in_set_takeD in_set_dropD)
      then show ?thesis by (rule old)
    next
      case False
      with oi have "oi \<in> set W \<or> oi = (W ! e)\<lparr>quantity := js_sub ?a ?b\<rparr>"
        by (auto dest: set_update_subset_insert [THEN subsetD])
      then show ?thesis
      proof
        assume "oi \<in> set W"
        then show ?thesis by (rule old)
      next
        assume new: "oi = (W ! e)\<lparr>quantity := js_sub ?a ?b\<rparr>"
        from pos e have "positive_integer ?a" by simp
        then obtain A where A: "?a = Fin (of_int A)" "1 \<le> A"
          by (rule positive_integerE)
        from b obtain B where B: "?b = Fin (of_int B)" "1 \<le> B"
          by (rule positive_integerE)
        from False have "B < A" by (simp add: A B)
        then have "1 \<le> A - B" by simp
        then have "(of_int 1 :: rat) \<le> of_int (A - B)"
          by (simp only: of_int_le_iff)
        then have "(1::rat) \<le> of_int A - of_int B"
          by simp
        from fl_ge_one [OF this] show ?thesis
          by (simp add: new A(1) B(1))
      qed
    qed
  qed
  have c2: "positive_integer ?a \<and> positive_integer ?b \<and> int_of ?a \<le> 2 ^ 53 \<and> \<not> js_ge ?b ?a \<longrightarrow>
              js_sub ?a ?b = Fin (of_int (int_of ?a - int_of ?b)) \<and> 1 \<le> int_of ?a - int_of ?b"
    using exact by blast
  have c3: "(\<forall>oi \<in> set W. positive_integer (quantity oi)) \<and> positive_integer ?b \<longrightarrow>
              (\<forall>oi \<in> set (fst (handleMultiItemRemoval toLowerCase menu sink (rs @ [r]) ledger)).
                 js_ge (quantity oi) (Fin 1))"
    unfolding res using kept by blast
  from res c2 c3 show ?thesis
    by (intro conjI)
qed

theorem removal_deletes_or_decrements_witness:
  "fst (handleMultiItemRemoval toLowerCase_ascii demo_menu True
          ([request ''fries'' (Fin 5) None] @ [request ''Burger'' (Fin 2) None])
          [mk_line burger (Fin 3) None, mk_line fries (Fin 4) None])
     = [mk_line burger (Fin 1) None]
   \<and> list_all (\<lambda>oi. js_ge (quantity oi) (Fin 1))
        (fst (handleMultiItemRemoval toLowerCase_ascii demo_menu True
          ([request ''fries'' (Fin 5) None] @ [request ''Burger'' (Fin 2) None])
          [mk_line burger (Fin 3) None, mk_line fries (Fin 4) None]))"
proof -
  let ?r = "request ''Burger'' (Fin 2) None"
  let ?L = "[mk_line burger (Fin 3) None, mk_line fries (Fin 4) None]"
  let ?W = "[mk_line burger (Fin 3) None]"
  let ?res = "fst (handleMultiItemRemoval toLowerCase_ascii demo_menu True
                ([request ''fries'' (Fin 5) None] @ [?r]) ?L)"
  have 1: "find_menu toLowerCase_ascii demo_menu (itemName ?r) = Some burger" by (simp add: ev)
  have 2: "?W = fst (handleMultiItemRemoval toLowerCase_ascii demo_menu True
                  [request ''fries'' (Fin 5) None] ?L)"
    by (simp add: ev)
  have 3: "findIndex (same_line (item_id burger) (norm_notes (reqNotes ?r))) ?W = Some 0"
    by (simp add: ev)
  have 4: "positive_integer (quantity (?W ! 0))" "positive_integer (reqQuantity ?r)"
    "int_of (quantity (?W ! 0)) \<le> 2 ^ 53" "\<not> js_ge (reqQuantity ?r) (quantity (?W ! 0))"
    "int_of (quantity (?W ! 0)) = 3" "int_of (reqQuantity ?r) = 2"
    by (simp_all add: mk_line_def request_def positive_integer_def int_of_def)
  have 5: "\<forall>oi \<in> set ?W. positive_integer (quantity oi)"
    using 4(1) by simp
  note main = removal_deletes_or_decrements [OF 1 2 3]
  from main 4 have sub: "js_sub (quantity (?W ! 0)) (reqQuantity ?r) = Fin 1"
    by simp
  from main [THEN conjunct1] 4(4) sub have a: "?res = [mk_line burger (Fin 1) None]"
    by (simp add: mk_line_def)
  from main 5 4(2) have "\<forall>oi \<in> set ?res. js_ge (quantity oi) (Fin 1)"
    by blast
  then have b: "list_all (\<lambda>oi. js_ge (quantity oi) (Fin 1)) ?res"
    by (simp only: list_all_iff)
  from a b show ?thesis ..
qed

text \<open>
  A line of \<open>2^53 + 2\<close> and a request of 1: the line keeps \<open>2^53\<close>, two less and not one.
\<close>

theorem removal_decrement_counterexample:
  "fl 9007199254740994 = Fin 9007199254740994
   \<and> fst (handleMultiItemRemoval toLowerCase_ascii demo_menu True
          [request ''Burger'' (Fin 1) None] [mk_line burger (Fin 9007199254740994) None])
     = [mk_line burger (Fin 9007199254740992) None]"
proof -
  have 1: "fl 9007199254740994 = Fin 9007199254740994"
    by code_simp
  have 2: "js_sub (Fin 9007199254740994) (Fin 1) = Fin 9007199254740992"
    by code_simp
  have 3: "\<not> js_ge (Fin 1) (Fin 9007199254740994)"
    by simp
  have "fst (handleMultiItemRemoval toLowerCase_ascii demo_menu True
          [request ''Burger'' (Fin 1) None] [mk_line burger (Fin 9007199254740994) None])
     = [mk_line burger (Fin 9007199254740992) None]"
    unfolding handleMultiItemRemoval_def removal_loop_def Let_def
    by (simp add: removal_step_def find_menu_def demo_menu_def burger_def fries_def js_def
        toLowerCase_ascii_def trim_def isWhiteSpace_def request_def mk_line_def same_line_def
        norm_notes_def Let_def 2 3 del: js_sub.simps js_ge.simps)
  with 1 show ?thesis ..
qed

section \<open>Checkout and submission: facts\<close>

lemma rupee_not_space: "\<not> isWhiteSpace rupee"
  by (simp add: isWhiteSpace_def rupee_def)

lemma trim_rupee: "\<exists>t. trim (rupee # s) = rupee # t"
proof -
  have "dropWhile isWhiteSpace (rupee # s) = rupee # s"
    by (simp add: rupee_not_space)
  moreover have "\<exists>t. rev (dropWhile P (rev (x # xs))) = x # t" if "\<not> P x" for P and x :: nat and xs
  proof -
    have "dropWhile P (rev xs @ [x]) = dropWhile P (rev xs) @ [x]"
      using that by (simp add: dropWhile_append3)
    then show ?thesis by simp
  qed
  ultimately show ?thesis
    unfolding trim_def using rupee_not_space by metis
qed

lemma Number_js_rupee: "Number_js (rupee # s) = NaN"
proof -
  obtain t where t: "trim (rupee # s) = rupee # t"
    using trim_rupee by blast
  have 1: "non_decimal_radix (rupee # t) = None"
    by (simp add: non_decimal_radix_def rupee_def split: list.splits)
  have 2: "lex_StrDecimalLiteral (rupee # t) = None"
    by (simp add: lex_StrDecimalLiteral_def lex_sign_def lex_unsigned_def rupee_def
        isDigit_def js_def Let_def)
  show ?thesis
    by (simp add: Number_js_def t 1 2)
qed

lemma formatted_bill_rejected:
  "\<not> bill_accepted (Some \<lparr>items = xs, subtotal = formatPrice a, gstAmount = g,
       grandTotal = t, tableNumber = n\<rparr>)"
  by (simp add: bill_accepted_def formatPrice_def Number_js_rupee isNaN_def)
text \<open>
  Claim C1. The claim says that the confirmation accepts every bill the checkout creates
  and writes it. The code does the opposite: the three money fields of such a bill start
  with the rupee sign, \<open>Number\<close> of such a string is \<open>NaN\<close>, so the bill is rejected, no
  document is passed to \<open>addDoc\<close>, the ledger is kept and the page moves on to the final
  confirmation with a warning. This holds for every non-empty ledger and every rate; the
  handler is the one of the render that follows the checkout.
\<close>

theorem checkout_bill_is_never_submitted:
  assumes "orderItems st \<noteq> []" and "\<not> isSubmitting st"
  shows "fst (handleCheckoutAndGoToBill rate st)
       \<and> \<not> bill_accepted (currentBillData (snd (handleCheckoutAndGoToBill rate st)))
       \<and> confirm_trigger now (render_handler (snd (handleCheckoutAndGoToBill rate st)))
             (snd (handleCheckoutAndGoToBill rate st))
           = (snd (handleCheckoutAndGoToBill rate st))
               \<lparr>currentPage := FinalConfirmation, console_warn := console_warn st + 1\<rparr>
       \<and> addDoc_bills (confirm_trigger now (render_handler (snd (handleCheckoutAndGoToBill rate st)))
             (snd (handleCheckoutAndGoToBill rate st)))
           = addDoc_bills st
       \<and> orderItems (confirm_trigger now (render_handler (snd (handleCheckoutAndGoToBill rate st)))
             (snd (handleCheckoutAndGoToBill rate st)))
           = orderItems st"
  using assms
  by (simp add: handleCheckoutAndGoToBill_def Let_def navigateTo_def confirm_trigger_def
      render_handler_def formatted_bill_rejected)

text \<open>
  Claim C10. With an empty ledger the checkout returns \<open>false\<close> and leaves the state as it
  is: no bill snapshot is stored and the page does not change.
\<close>

theorem empty_ledger_checkout_is_noop:
  assumes "orderItems st = []"
  shows "handleCheckoutAndGoToBill rate st = (False, st)"
  using assms by (simp add: handleCheckoutAndGoToBill_def)

text \<open>
  How the guard \<open>if (isSubmitting) return\<close> works. A call through the handler of a render
  that has seen \<open>isSubmitting\<close> set changes nothing. Two calls through the same handler,
  created while \<open>isSubmitting\<close> was not set, both pass the guard: with a bill that the
  test accepts, each of them passes a document to \<open>addDoc\<close>.
\<close>

lemma rerendered_confirm_is_dropped:
  "isSubmitting st \<Longrightarrow> confirm_trigger now (render_handler st) st = st"
  by (simp add: confirm_trigger_def render_handler_def)

lemma same_handler_confirms_write_twice:
  assumes "\<not> captured_isSubmitting c" and "captured_currentBillData c = Some d"
    and "bill_accepted (Some d)"
  shows "addDoc_bills (confirm_trigger now' c (confirm_trigger now c st))
           = addDoc_bills st @ [bill_document now d, bill_document now' d]"
  using assms by (simp add: confirm_trigger_def)


section \<open>Checkout and submission: examples\<close>

theorem checkout_bill_is_never_submitted_witness:
  "orderItems demo_state \<noteq> [] \<and> \<not> isSubmitting demo_state
   \<and> fst (handleCheckoutAndGoToBill demo_rate demo_state)
   \<and> currentBillData (snd (handleCheckoutAndGoToBill demo_rate demo_state))
       = Some \<lparr>items = [mk_line burger (Fin 2) None], subtotal = rupee # js ''200.00'',
           gstAmount = rupee # js ''36.00'', grandTotal = rupee # js ''236.00'',
           tableNumber = js ''5''\<rparr>
   \<and> Number_js (rupee # js ''200.00'') = NaN
   \<and> addDoc_bills (confirm_trigger demo_now
         (render_handler (snd (handleCheckoutAndGoToBill demo_rate demo_state)))
         (snd (handleCheckoutAndGoToBill demo_rate demo_state))) = []
   \<and> currentPage (confirm_trigger demo_now
         (render_handler (snd (handleCheckoutAndGoToBill demo_rate demo_state)))
         (snd (handleCheckoutAndGoToBill demo_rate demo_state))) = FinalConfirmation
   \<and> orderItems (confirm_trigger demo_now
         (render_handler (snd (handleCheckoutAndGoToBill demo_rate demo_state)))
         (snd (handleCheckoutAndGoToBill demo_rate demo_state))) = [mk_line burger (Fin 2) None]"
proof -
  let ?st1 = "snd (handleCheckoutAndGoToBill demo_rate demo_state)"
  have h1: "orderItems demo_state \<noteq> []" and h2: "\<not> isSubmitting demo_state"
    by (simp_all add: demo_state_def initial_state_def)
  have b: "currentBillData ?st1
       = Some \<lparr>items = [mk_line burger (Fin 2) None], subtotal = rupee # js ''200.00'',
           gstAmount = rupee # js ''36.00'', grandTotal = rupee # js ''236.00'',
           tableNumber = js ''5''\<rparr>"
    by code_simp
  have n: "Number_js (rupee # js ''200.00'') = NaN"
    by code_simp
  have s: "addDoc_bills demo_state = []" "orderItems demo_state = [mk_line burger (Fin 2) None]"
    by (simp_all add: demo_state_def initial_state_def)
  note t = checkout_bill_is_never_submitted [OF h1 h2, of demo_rate demo_now]
  have c: "fst (handleCheckoutAndGoToBill demo_rate demo_state)"
    using t by (rule conjunct1)
  have d: "confirm_trigger demo_now (render_handler ?st1) ?st1
           = ?st1\<lparr>currentPage := FinalConfirmation, console_warn := console_warn demo_state + 1\<rparr>"
    using t [THEN conjunct2, THEN conjunct2, THEN conjunct1] .
  have e: "addDoc_bills (confirm_trigger demo_now (render_handler ?st1) ?st1) = []"
    using t [THEN conjunct2, THEN conjunct2, THEN conjunct2, THEN conjunct1] s(1)
    by (rule trans)
  have f: "orderItems (confirm_trigger demo_now (render_handler ?st1) ?st1)
             = [mk_line burger (Fin 2) None]"
    using t [THEN conjunct2, THEN conjunct2, THEN conjunct2, THEN conjunct2] s(2)
    by (rule trans)
  have g: "currentPage (confirm_trigger demo_now (render_handler ?st1) ?st1) = FinalConfirmation"
    unfolding d by simp
  show ?thesis
    using h1 h2 b n c e f g by blast
qed

theorem empty_ledger_checkout_is_noop_witness:
  "orderItems initial_state = []
   \<and> handleCheckoutAndGoToBill demo_rate initial_state = (False, initial_state)
   \<and> currentBillData (snd (handleCheckoutAndGoToBill demo_rate initial_state)) = None
   \<and> currentPage (snd (handleCheckoutAndGoToBill demo_rate initial_state)) = Welcome"
proof -
  have h: "orderItems initial_state = []"
    by (simp add: initial_state_def)
  from empty_ledger_checkout_is_noop [OF h, of demo_rate] h show ?thesis
    by (simp add: initial_state_def)
qed


text \<open>
  A bill with money fields that \<open>Number\<close> reads (no checkout creates one): two calls
  through the handler of the same render write two documents.
\<close>

lemma same_handler_confirms_write_twice_example:
  "addDoc_bills (confirm_trigger demo_now
       (render_handler (demo_state\<lparr>currentBillData := Some plain_bill\<rparr>))
       (confirm_trigger demo_now
          (render_handler (demo_state\<lparr>currentBillData := Some plain_bill\<rparr>))
          (demo_state\<lparr>currentBillData := Some plain_bill\<rparr>)))
     = [bill_document demo_now plain_bill, bill_document demo_now plain_bill]"
proof -
  let ?st = "demo_state\<lparr>currentBillData := Some plain_bill\<rparr>"
  have 1: "\<not> captured_isSubmitting (render_handler ?st)"
    by (simp add: render_handler_def demo_state_def initial_state_def)
  have 2: "captured_currentBillData (render_handler ?st) = Some plain_bill"
    by (simp add: render_handler_def)
  have 3: "bill_accepted (Some plain_bill)"
    by code_simp
  have s: "addDoc_bills ?st = []"
    by (simp add: demo_state_def initial_state_def)
  from same_handler_confirms_write_twice [OF 1 2 3, of demo_now demo_now ?st] s
  show ?thesis by simp
qed

end
